theory Spec2Isabelle
  imports Complex_Main
begin

section \<open>Data model of \<open>src/entities/player.ts\<close>\<close>

text \<open>
  The class \<open>Player\<close> keeps its logical state in private fields and finds everything else
  (blocks, bombs, other players, green spaces) by querying the document. The model is one
  record \<open>world\<close> that holds the fields of one \<open>Player\<close> instance, the two module flags, the
  value of \<open>localStorage.getItem('playerId')\<close>, the elements of the document, the pending
  \<open>setTimeout\<close> callbacks with a clock, and a chronological trace of every
  \<open>eventBus.emit\<close> and \<open>sendToServer\<close> call.

  Numbers are whole numbers (\<open>int\<close>), on which \<open>Math.floor\<close> is the identity; only
  \<open>speed\<close>, which grows by 0.5, is a \<open>rat\<close>. \<open>TILE_SIZE\<close> is imported from
  \<open>game/constants\<close>, which is not part of the sources: it is the parameter \<open>T\<close> of every
  function that reads or writes a pixel position. The message tags of \<open>EVENTS\<close> are the
  constructors of \<open>message\<close>.

  Of the event bus the model keeps what the class itself subscribes: an emitted
  \<open>player:hit\<close> reaches \<open>handleHit\<close> of this instance before \<open>emit\<close> returns. The
  subscribers of other instances and of other modules are outside the model, and so are
  the methods that move the player (\<open>move\<close>, \<open>setPosition\<close>, the keyboard handler), which
  none of the properties below is about. Style changes that no code reads back (CSS
  classes \<open>hit\<close> and \<open>invulnerable\<close>, opacity, animations, the fuse child of a bomb, the
  style sheet of the animations, the name tag) and \<open>console.log\<close> are not represented.
\<close>

datatype Direction = UP | RIGHT | DOWN | LEFT | NONE

text \<open>A value of type \<open>any\<close> as far as the handlers inspect it.\<close>

datatype jsval = Undefined | Str string | Num int

text \<open>
  \<open>PowerUpType\<close> is imported from \<open>game/powerups\<close>, which is not part of the sources: the
  three members the class uses are parameters of the handlers.
\<close>

record PowerUpType =
  BOMB :: jsval
  FLAME :: jsval
  SPEED :: jsval

text \<open>
  An element of the document: \<open>leftPx\<close> and \<open>topPx\<close> are \<open>parseInt(style.left)\<close> and
  \<open>parseInt(style.top)\<close>; \<open>className\<close> is the list of its classes.
\<close>

record element =
  handle :: nat
  elemId :: string
  className :: "string list"
  leftPx :: int
  topPx :: int

text \<open>The payload of an incoming event (\<open>data: any\<close>), with the properties the handlers read.\<close>

record eventData =
  playerId :: string
  attackerId :: "string option"
  dataType :: jsval
  dataValue :: "int option"
  source :: "string option"

datatype event =
    PlayerHit string string
  | PlayerDamaged string int
  | PlayerEliminated string string
  | InvulnerabilityStart string
  | InvulnerabilityEnd string
  | StatsUpdate string rat int int int
  | BombPlaced string int int int
  | BlockDestroyed int int

datatype message =
    DROP_BOMB int int int
  | PLAYER_HIT string string
  | player_eliminated string string
  | PLAYER_ELIMINATED string string bool
  | BLOCK_DESTROYED int int

datatype effect = Emit event | Send message

text \<open>The callbacks handed to \<open>setTimeout\<close>, each with the variables its closure captures.\<close>

datatype action =
    CooldownEnd
  | Fuse nat int int
  | InvulnerabilityTimeout
  | RemovePlayerElement
  | RemoveElement nat
  | SpawnPowerup int int

record world =
  isGamePaused :: bool
  isGameOver :: bool
  storedPlayerId :: "string option"
  document :: "element list"
  nextHandle :: nat
  now :: nat
  timers :: "(nat \<times> nat \<times> action) list"
  nextTimer :: nat
  trace :: "effect list"
  id' :: string
  posX :: int
  posY :: int
  direction :: Direction
  moving :: bool
  speed :: rat
  lives :: int
  invulnerable :: bool
  invulnerabilityTimer :: "nat option"
  bombCapacity :: int
  explosionRange :: int
  playerElement :: "nat option"
  bombCooldown :: bool
  activeBombs :: int
  gameContainer :: bool

definition invulnerabilityDuration :: nat where
  "invulnerabilityDuration = 2000"

definition bombCooldownTime :: nat where
  "bombCooldownTime = 1000"

section \<open>Event bus, relay, timers and document\<close>

definition emit :: "event \<Rightarrow> world \<Rightarrow> world" where
  "emit e w = w\<lparr>trace := trace w @ [Emit e]\<rparr>"

definition sendToServer :: "message \<Rightarrow> world \<Rightarrow> world" where
  "sendToServer m w = w\<lparr>trace := trace w @ [Send m]\<rparr>"

text \<open>\<open>setTimeout\<close> returns the identifier \<open>nextTimer w\<close> of the callback it registers.\<close>

definition setTimeout :: "action \<Rightarrow> nat \<Rightarrow> world \<Rightarrow> world" where
  "setTimeout a delay w =
     w\<lparr>timers := timers w @ [(nextTimer w, now w + delay, a)], nextTimer := Suc (nextTimer w)\<rparr>"

definition clearTimeout :: "nat \<Rightarrow> world \<Rightarrow> world" where
  "clearTimeout t w = w\<lparr>timers := filter (\<lambda>(i, due, a). i \<noteq> t) (timers w)\<rparr>"

definition querySelectorAll :: "string \<Rightarrow> world \<Rightarrow> element list" where
  "querySelectorAll c w = filter (\<lambda>e. c \<in> set (className e)) (document w)"

text \<open>\<open>appendChild\<close> of a newly created element; its handle is \<open>nextHandle w\<close>.\<close>

definition appendChild :: "string \<Rightarrow> string list \<Rightarrow> int \<Rightarrow> int \<Rightarrow> world \<Rightarrow> world" where
  "appendChild i cs l t w =
     w\<lparr>document := document w @
          [\<lparr>handle = nextHandle w, elemId = i, className = cs, leftPx = l, topPx = t\<rparr>],
       nextHandle := Suc (nextHandle w)\<rparr>"

definition removeElement :: "nat \<Rightarrow> world \<Rightarrow> world" where
  "removeElement h w = w\<lparr>document := filter (\<lambda>e. handle e \<noteq> h) (document w)\<rparr>"

text \<open>
  The cell of an element, \<open>Math.floor(parseInt(style.left) / TILE_SIZE)\<close> and the same for
  \<open>top\<close>: for a positive \<open>TILE_SIZE\<close> this is the floor division \<open>div\<close> of \<open>int\<close>.
\<close>

definition atCell :: "int \<Rightarrow> int \<Rightarrow> int \<Rightarrow> element \<Rightarrow> bool" where
  "atCell T gx gy e = (leftPx e div T = gx \<and> topPx e div T = gy)"

definition isLocalPlayer :: "world \<Rightarrow> bool" where
  "isLocalPlayer w = (storedPlayerId w = Some (id' w))"

section \<open>Grid rules\<close>

definition GRID_WIDTH :: int where
  "GRID_WIDTH = 14"

definition GRID_HEIGHT :: int where
  "GRID_HEIGHT = 16"

definition isValidPosition :: "int \<Rightarrow> int \<Rightarrow> int \<Rightarrow> world \<Rightarrow> bool" where
  "isValidPosition T x y w =
     (if x < 0 \<or> y < 0 \<or> x \<ge> GRID_WIDTH \<or> y \<ge> GRID_HEIGHT then False
      else if x mod 2 = 0 \<and> y mod 2 = 0 then False
      else if x = 0 \<or> y = 0 then False
      else if filter (atCell T x y) (querySelectorAll ''green-space'' w) \<noteq> [] then True
      else if list_ex (atCell T x y) (querySelectorAll ''block'' w) then False
      else if list_ex (atCell T x y) (querySelectorAll ''bomb'' w) then False
      else True)"

definition isValidExplosionPosition :: "int \<Rightarrow> int \<Rightarrow> bool" where
  "isValidExplosionPosition x y =
     (if x < 0 \<or> y < 0 \<or> x > GRID_WIDTH \<or> y > GRID_HEIGHT then False
      else if x mod 2 = 0 \<and> y mod 2 = 0 then False
      else if x = 0 \<or> y = 0 then False
      else True)"

section \<open>Power-ups and stat updates\<close>

text \<open>\<open>String.prototype.toLowerCase\<close> on the letters A to Z.\<close>

definition toLowerCase :: "string \<Rightarrow> string" where
  "toLowerCase s =
     map (\<lambda>c. case map_of (zip ''ABCDEFGHIJKLMNOPQRSTUVWXYZ'' ''abcdefghijklmnopqrstuvwxyz'') c of
                 None \<Rightarrow> c | Some l \<Rightarrow> l) s"

definition emitStatsUpdate :: "world \<Rightarrow> world" where
  "emitStatsUpdate w =
     emit (StatsUpdate (id' w) (speed w) (bombCapacity w) (explosionRange w) (lives w)) w"

definition handlePowerUp :: "PowerUpType \<Rightarrow> eventData \<Rightarrow> world \<Rightarrow> world" where
  "handlePowerUp P data w =
     (if playerId data \<noteq> id' w then w
      else if source data = None \<or> source data = Some [] \<or>
              source data \<noteq> Some ''visual_verification'' then w
      else
        let powerupType =
              (case dataType data of
                 Str s \<Rightarrow>
                   (if toLowerCase s = ''bomb'' then BOMB P
                    else if toLowerCase s = ''flame'' then FLAME P
                    else if toLowerCase s = ''speed'' then SPEED P
                    else Str s)
               | t \<Rightarrow> t)
        in if powerupType = BOMB P then
             emitStatsUpdate (w\<lparr>bombCapacity := bombCapacity w + 1\<rparr>)
           else if powerupType = FLAME P then
             emitStatsUpdate (w\<lparr>explosionRange := explosionRange w + 1\<rparr>)
           else if powerupType = SPEED P then
             emitStatsUpdate (w\<lparr>speed := speed w + 1 / 2\<rparr>)
           else if powerupType = Str ''extraLife'' then
             emitStatsUpdate (w\<lparr>lives := lives w + 1\<rparr>)
           else w)"

definition positive :: "int option \<Rightarrow> bool" where
  "positive v = (case v of None \<Rightarrow> False | Some n \<Rightarrow> n > 0)"

definition handleStatUpdate :: "PowerUpType \<Rightarrow> eventData \<Rightarrow> world \<Rightarrow> world" where
  "handleStatUpdate P data w =
     (if playerId data \<noteq> id' w then w
      else emitStatsUpdate
        (if dataType data = Str ''bombCapacity'' \<or> dataType data = BOMB P then
           (if positive (dataValue data) then w\<lparr>bombCapacity := the (dataValue data)\<rparr>
            else w\<lparr>bombCapacity := bombCapacity w + 1\<rparr>)
         else if dataType data = Str ''explosionRange'' \<or> dataType data = FLAME P then
           (if positive (dataValue data) then w\<lparr>explosionRange := the (dataValue data)\<rparr>
            else w\<lparr>explosionRange := explosionRange w + 1\<rparr>)
         else if dataType data = Str ''speed'' \<or> dataType data = SPEED P then
           (if positive (dataValue data) then w\<lparr>speed := of_int (the (dataValue data))\<rparr>
            else w\<lparr>speed := speed w + 1 / 2\<rparr>)
         else if dataType data = Str ''extraLife'' then w\<lparr>lives := lives w + 1\<rparr>
         else w))"

section \<open>Damage and elimination\<close>

definition setInvulnerable :: "world \<Rightarrow> world" where
  "setInvulnerable w =
     (let w1 = w\<lparr>invulnerable := True\<rparr>;
          w2 = (case invulnerabilityTimer w1 of None \<Rightarrow> w1 | Some t \<Rightarrow> clearTimeout t w1);
          w3 = (setTimeout InvulnerabilityTimeout invulnerabilityDuration w2)
                 \<lparr>invulnerabilityTimer := Some (nextTimer w2)\<rparr>
      in emit (InvulnerabilityStart (id' w3)) w3)"

text \<open>
  \<open>removePlayerElement\<close> acts only when the element exists and is attached
  (\<open>parentNode\<close>); the removal itself is the callback \<open>RemovePlayerElement\<close>.
\<close>

definition attached :: "nat \<Rightarrow> world \<Rightarrow> bool" where
  "attached h w = list_ex (\<lambda>e. handle e = h) (document w)"

definition removePlayerElement :: "world \<Rightarrow> world" where
  "removePlayerElement w =
     (case playerElement w of
        None \<Rightarrow> w
      | Some h \<Rightarrow> if attached h w then setTimeout RemovePlayerElement 500 w else w)"

text \<open>\<open>data.attackerId || this.id\<close>: a missing or empty attacker id is falsy.\<close>

definition attackerOr :: "string option \<Rightarrow> string \<Rightarrow> string" where
  "attackerOr a i = (case a of None \<Rightarrow> i | Some s \<Rightarrow> if s = [] then i else s)"

definition handleHit :: "eventData \<Rightarrow> world \<Rightarrow> world" where
  "handleHit data w =
     (if playerId data \<noteq> id' w then w
      else if invulnerable w then w
      else
        let w1 = w\<lparr>lives := lives w - 1\<rparr>;
            w2 = emit (PlayerDamaged (id' w1) (lives w1)) w1;
            w3 = sendToServer (PLAYER_HIT (id' w2) (attackerOr (attackerId data) (id' w2))) w2;
            w4 = setInvulnerable w3
        in if lives w4 \<le> 0 then
             let w5 = removePlayerElement w4;
                 w6 = emit (PlayerEliminated (id' w5) (attackerOr (attackerId data) (id' w5))) w5;
                 w7 = sendToServer
                        (player_eliminated (id' w6) (attackerOr (attackerId data) (id' w6))) w6
             in if attackerId data = Some (id' w7)
                then sendToServer (PLAYER_ELIMINATED (id' w7) (id' w7) True) w7
                else w7
           else w4)"

text \<open>
  \<open>eventBus.emit('player:hit', ...)\<close>: the bus is synchronous, so the handler that the
  constructor subscribed runs before \<open>emit\<close> returns.
\<close>

definition emitHit :: "string \<Rightarrow> string \<Rightarrow> world \<Rightarrow> world" where
  "emitHit p a w =
     handleHit \<lparr>playerId = p, attackerId = Some a, dataType = Undefined, dataValue = None,
                source = None\<rparr>
       (emit (PlayerHit p a) w)"

section \<open>Explosions\<close>

text \<open>
  The set \<open>destroyedBlocks\<close> holds the keys \<open>`${x},${y}`\<close>; printing two whole numbers
  with a comma between them is injective, so a key is the pair itself.
\<close>

type_synonym blast = "(int \<times> int) set \<times> world"

text \<open>The body of \<open>redBlocks.forEach\<close> in \<open>destroyBlockAt\<close>.\<close>

definition destroyBlock :: "int \<Rightarrow> int \<Rightarrow> world \<Rightarrow> element \<Rightarrow> world" where
  "destroyBlock x y w blockEl =
     (let w1 = appendChild [] [''empty-space''] (leftPx blockEl) (topPx blockEl) w;
          w2 = setTimeout (RemoveElement (handle blockEl)) 500 w1;
          w3 = emit (BlockDestroyed x y) w2;
          w4 = (if isLocalPlayer w3 then sendToServer (BLOCK_DESTROYED x y) w3 else w3)
      in setTimeout (SpawnPowerup x y) 400 w4)"

definition destroyBlockAt :: "int \<Rightarrow> int \<Rightarrow> int \<Rightarrow> blast \<Rightarrow> bool \<times> blast" where
  "destroyBlockAt T x y b =
     (case b of (destroyedBlocks, w) \<Rightarrow>
        if \<not> gameContainer w then (False, b)
        else if (x, y) \<in> destroyedBlocks then (False, b)
        else
          let redBlocks = filter (atCell T x y) (querySelectorAll ''block'' w)
          in if redBlocks \<noteq> []
             then (True, (insert (x, y) destroyedBlocks, foldl (destroyBlock x y) w redBlocks))
             else (False, b))"

text \<open>\<open>String.prototype.replace\<close> with a string pattern: the first occurrence only.\<close>

fun replace :: "string \<Rightarrow> string \<Rightarrow> string \<Rightarrow> string" where
  "replace pat rep [] = (if pat = [] then rep else [])"
| "replace pat rep (c # cs) =
     (if take (length pat) (c # cs) = pat then rep @ drop (length pat) (c # cs)
      else c # replace pat rep cs)"

definition checkPlayerHit :: "int \<Rightarrow> int \<Rightarrow> int \<Rightarrow> world \<Rightarrow> world" where
  "checkPlayerHit T x y w =
     foldl (\<lambda>v player.
              if atCell T x y player
              then emitHit (replace ''player-'' [] (elemId player)) (id' v) v
              else v)
       w (querySelectorAll ''player'' w)"

text \<open>
  The check of the local player against the centre cell (lines 1034 to 1045) and against a
  cell of a ray (lines 1091 to 1111); only the second also announces the hit to the relay.
\<close>

definition selfHitCenter :: "int \<Rightarrow> int \<Rightarrow> world \<Rightarrow> world" where
  "selfHitCenter x y w =
     (if isLocalPlayer w then
        (if posX w = x \<and> posY w = y then emitHit (id' w) (id' w) w else w)
      else w)"

definition selfHitRay :: "int \<Rightarrow> int \<Rightarrow> world \<Rightarrow> world" where
  "selfHitRay ex ey w =
     (if isLocalPlayer w then
        (if posX w = ex \<and> posY w = ey
         then (let v = emitHit (id' w) (id' w) w in sendToServer (PLAYER_HIT (id' v) (id' v)) v)
         else w)
      else w)"

record dir =
  dx :: int
  dy :: int
  name :: string

definition directions :: "dir list" where
  "directions =
     [\<lparr>dx = 0, dy = -1, name = ''up''\<rparr>,
      \<lparr>dx = 1, dy = 0, name = ''right''\<rparr>,
      \<lparr>dx = 0, dy = 1, name = ''down''\<rparr>,
      \<lparr>dx = -1, dy = 0, name = ''left''\<rparr>]"

text \<open>
  One iteration of the inner \<open>for\<close> loop after the position check: render the blast, destroy
  a block, hit players, schedule the removal of the blast. The result says whether a block
  was destroyed.
\<close>

definition explodeCell :: "int \<Rightarrow> dir \<Rightarrow> int \<Rightarrow> int \<Rightarrow> blast \<Rightarrow> bool \<times> blast" where
  "explodeCell T d explosionX explosionY b =
     (case b of (destroyedBlocks, w) \<Rightarrow>
        let w1 = appendChild [] [''explosion'', name d] (explosionX * T) (explosionY * T) w
        in case destroyBlockAt T explosionX explosionY (destroyedBlocks, w1) of
             (wasDestroyed, destroyedBlocks', w2) \<Rightarrow>
               let w3 = checkPlayerHit T explosionX explosionY w2;
                   w4 = selfHitRay explosionX explosionY w3;
                   w5 = setTimeout (RemoveElement (nextHandle w)) 500 w4
               in (wasDestroyed, (destroyedBlocks', w5)))"

text \<open>The loop \<open>for (let i = 1; i <= radius; i++)\<close> of one direction, from step \<open>i\<close> on.\<close>

function explosionRay :: "int \<Rightarrow> dir \<Rightarrow> int \<Rightarrow> int \<Rightarrow> int \<Rightarrow> int \<Rightarrow> blast \<Rightarrow> blast" where
  "explosionRay T d x y radius i b =
     (if i \<le> radius then
        (if \<not> isValidExplosionPosition (x + dx d * i) (y + dy d * i) then b
         else case explodeCell T d (x + dx d * i) (y + dy d * i) b of
                (wasDestroyed, b') \<Rightarrow>
                  if wasDestroyed then b' else explosionRay T d x y radius (i + 1) b')
      else b)"
  by pat_completeness auto
termination
  by (relation "measure (\<lambda>(T, d, x, y, radius, i, b). nat (radius + 1 - i))") auto

declare explosionRay.simps [simp del]

text \<open>
  The centre of \<open>createExplosion\<close> (lines 1001 to 1045): render the centre blast, destroy
  a block there, hit the players there. The set of destroyed blocks starts empty.
\<close>

definition explodeCenter :: "int \<Rightarrow> int \<Rightarrow> int \<Rightarrow> world \<Rightarrow> blast" where
  "explodeCenter T x y w =
     (let w1 = appendChild [] [''explosion'', ''center''] (x * T) (y * T) w;
          w2 = setTimeout (RemoveElement (nextHandle w)) 500 w1
      in case destroyBlockAt T x y ({}, w2) of
           (wasDestroyed, destroyedBlocks, w3) \<Rightarrow>
             (destroyedBlocks, selfHitCenter x y (checkPlayerHit T x y w3)))"

definition createExplosion :: "int \<Rightarrow> int \<Rightarrow> int \<Rightarrow> int \<Rightarrow> world \<Rightarrow> world" where
  "createExplosion T x y radius w =
     (if \<not> gameContainer w then w
      else snd (foldl (\<lambda>b d. explosionRay T d x y radius 1 b) (explodeCenter T x y w)
                  directions))"

section \<open>Bombs and timers\<close>

definition placeBomb :: "int \<Rightarrow> world \<Rightarrow> world" where
  "placeBomb T w =
     (if playerElement w = None \<or> \<not> gameContainer w then w
      else if isGamePaused w then w
      else if bombCooldown w then w
      else if activeBombs w \<ge> bombCapacity w then w
      else if list_ex (atCell T (posX w) (posY w)) (querySelectorAll ''bomb'' w) then w
      else
        let gridX = posX w;
            gridY = posY w;
            w1 = appendChild [] [''bomb''] (gridX * T) (gridY * T) w;
            w2 = w1\<lparr>activeBombs := activeBombs w1 + 1\<rparr>;
            w3 = setTimeout CooldownEnd bombCooldownTime (w2\<lparr>bombCooldown := True\<rparr>);
            w4 = sendToServer (DROP_BOMB gridX gridY (explosionRange w3)) w3;
            w5 = emit (BombPlaced (id' w4) gridX gridY (explosionRange w4)) w4
        in setTimeout (Fuse (nextHandle w) gridX gridY) 2000 w5)"

text \<open>
  What each callback does when it runs. The fuse callback captured \<open>bomb\<close>, \<open>gridX\<close> and
  \<open>gridY\<close>, and reads \<open>this.explosionRange\<close> when it runs. The spawn callback only calls
  \<open>maybeSpawnPowerup\<close> and \<open>powerUp.render\<close> of \<open>game/powerups\<close>, which is not part of the
  sources and touches no field of the player.
\<close>

definition runAction :: "int \<Rightarrow> action \<Rightarrow> world \<Rightarrow> world" where
  "runAction T a w =
     (case a of
        CooldownEnd \<Rightarrow> w\<lparr>bombCooldown := False\<rparr>
      | Fuse bomb gridX gridY \<Rightarrow>
          (let w1 = removeElement bomb w;
               w2 = w1\<lparr>activeBombs := activeBombs w1 - 1\<rparr>
           in createExplosion T gridX gridY (explosionRange w2) w2)
      | InvulnerabilityTimeout \<Rightarrow>
          (let w1 = w\<lparr>invulnerable := False, invulnerabilityTimer := None\<rparr>
           in emit (InvulnerabilityEnd (id' w1)) w1)
      | RemovePlayerElement \<Rightarrow>
          (case playerElement w of
             None \<Rightarrow> w
           | Some h \<Rightarrow> if attached h w then (removeElement h w)\<lparr>playerElement := None\<rparr> else w)
      | RemoveElement h \<Rightarrow> removeElement h w
      | SpawnPowerup x y \<Rightarrow> w)"

text \<open>
  The event loop runs the callback registered under identifier \<open>t\<close>, no earlier than its
  due time; a cleared or unknown identifier runs nothing.
\<close>

definition fireTimer :: "int \<Rightarrow> nat \<Rightarrow> world \<Rightarrow> world" where
  "fireTimer T t w =
     (case find (\<lambda>(i, due, a). i = t) (timers w) of
        None \<Rightarrow> w
      | Some (i, due, a) \<Rightarrow>
          runAction T a
            (w\<lparr>timers := filter (\<lambda>(j, d, c). j \<noteq> t) (timers w), now := max (now w) due\<rparr>))"

section \<open>Entry points\<close>

text \<open>
  Everything that can run code of the class in this model: the subscriptions made by the
  constructor, the two public methods that act on bombs, and a pending callback.
\<close>

datatype input =
    On_powerup_applied eventData
  | On_stat_updated eventData
  | On_player_hit eventData
  | On_game_pause
  | On_game_resume
  | On_game_end
  | On_game_over
  | On_game_reset
  | Call_placeBomb
  | Call_createExplosion int int int
  | Timeout nat

definition step :: "int \<Rightarrow> PowerUpType \<Rightarrow> input \<Rightarrow> world \<Rightarrow> world" where
  "step T P i w =
     (case i of
        On_powerup_applied data \<Rightarrow> handlePowerUp P data w
      | On_stat_updated data \<Rightarrow> handleStatUpdate P data w
      | On_player_hit data \<Rightarrow> handleHit data w
      | On_game_pause \<Rightarrow> w\<lparr>isGamePaused := True\<rparr>
      | On_game_resume \<Rightarrow> w\<lparr>isGamePaused := False\<rparr>
      | On_game_end \<Rightarrow> w\<lparr>isGameOver := True\<rparr>
      | On_game_over \<Rightarrow> w\<lparr>isGameOver := True\<rparr>
      | On_game_reset \<Rightarrow> w\<lparr>isGameOver := False\<rparr>
      | Call_placeBomb \<Rightarrow> placeBomb T w
      | Call_createExplosion x y radius \<Rightarrow> createExplosion T x y radius w
      | Timeout t \<Rightarrow> fireTimer T t w)"

section \<open>Sequences of inputs and conditions on the pending callbacks\<close>

text \<open>A sequence of inputs, one after the other.\<close>

definition run :: "int \<Rightarrow> PowerUpType \<Rightarrow> input list \<Rightarrow> world \<Rightarrow> world" where
  "run T P ins w = foldl (\<lambda>v i. step T P i v) w ins"

text \<open>
  \<open>setTimeout\<close> never hands out an identifier twice: every pending callback has an
  identifier below \<open>nextTimer\<close>.
\<close>

definition timersFresh :: "world \<Rightarrow> bool" where
  "timersFresh w = list_all (\<lambda>(i, due, a). i < nextTimer w) (timers w)"

text \<open>
  The only pending invulnerability callback is the one whose identifier the player stores
  (\<open>setInvulnerable\<close> clears the stored one before it registers the next).
\<close>

definition singleInvulnerabilityTimer :: "world \<Rightarrow> bool" where
  "singleInvulnerabilityTimer w =
     list_all (\<lambda>(i, due, a). a = InvulnerabilityTimeout \<longrightarrow> invulnerabilityTimer w = Some i)
       (timers w)"

text \<open>Both conditions together; every input keeps them (\<open>step_wellFormed\<close> below).\<close>

definition timersWellFormed :: "world \<Rightarrow> bool" where
  "timersWellFormed w \<longleftrightarrow> timersFresh w \<and> singleInvulnerabilityTimer w"

text \<open>The flag is set and no pending callback other than \<open>t\<close> can clear it.\<close>

definition shielded :: "nat \<Rightarrow> world \<Rightarrow> bool" where
  "shielded t w \<longleftrightarrow>
     invulnerable w \<and> list_all (\<lambda>(i, due, a). a = InvulnerabilityTimeout \<longrightarrow> i = t) (timers w)"

section \<open>Observations of an explosion\<close>

text \<open>
  The test \<open>redBlocks.length > 0\<close> of \<open>destroyBlockAt\<close>: some block element lies on
  the cell.
\<close>

definition hasBlock :: "int \<Rightarrow> world \<Rightarrow> int \<Rightarrow> int \<Rightarrow> bool" where
  "hasBlock T w cx cy = (filter (atCell T cx cy) (querySelectorAll ''block'' w) \<noteq> [])"

text \<open>
  The pixel positions of the blast elements of one direction (class \<open>explosion\<close> followed
  by the name of the direction), in document order.
\<close>

definition blastCells :: "string \<Rightarrow> world \<Rightarrow> (int \<times> int) list" where
  "blastCells n w =
     map (\<lambda>e. (leftPx e, topPx e)) (filter (\<lambda>e. className e = [''explosion'', n]) (document w))"

text \<open>
  The attackers named by the \<open>player:hit\<close> events emitted so far for player \<open>p\<close>, in the
  order of emission.
\<close>

fun hitAttacker :: "string \<Rightarrow> effect \<Rightarrow> string list" where
  "hitAttacker p (Emit (PlayerHit q a)) = (if q = p then [a] else [])"
| "hitAttacker p e = []"

definition hitsOn :: "string \<Rightarrow> world \<Rightarrow> string list" where
  "hitsOn p w = concat (map (hitAttacker p) (trace w))"

section \<open>Vocabulary of the proofs\<close>

text \<open>
  A property of the world is stable when the primitives used while a cell is resolved
  keep it: emitting, sending, registering a callback other than the invulnerability one,
  appending the empty space that replaces a block, and delivering a hit. It is blast-stable
  when appending a blast element keeps it.
\<close>

definition stable :: "(world \<Rightarrow> bool) \<Rightarrow> bool" where
  "stable Q \<longleftrightarrow>
     (\<forall>w e. Q w \<longrightarrow> Q (emit e w)) \<and>
     (\<forall>w m. Q w \<longrightarrow> Q (sendToServer m w)) \<and>
     (\<forall>w a n. a \<noteq> InvulnerabilityTimeout \<longrightarrow> Q w \<longrightarrow> Q (setTimeout a n w)) \<and>
     (\<forall>w l t. Q w \<longrightarrow> Q (appendChild [] [''empty-space''] l t w)) \<and>
     (\<forall>w d. Q w \<longrightarrow> Q (handleHit d w))"

definition blastStable :: "(world \<Rightarrow> bool) \<Rightarrow> bool" where
  "blastStable Q \<longleftrightarrow> (\<forall>w c l t. Q w \<longrightarrow> Q (appendChild [] [''explosion'', c] l t w))"

text \<open>The container and the block elements are as given.\<close>

definition framed :: "bool \<Rightarrow> element list \<Rightarrow> world \<Rightarrow> bool" where
  "framed g bs w \<longleftrightarrow> gameContainer w = g \<and> querySelectorAll ''block'' w = bs"

text \<open>The identity and position of the player and the player elements are as given.\<close>

definition located :: "string \<Rightarrow> string option \<Rightarrow> int \<Rightarrow> int \<Rightarrow> element list \<Rightarrow> world \<Rightarrow> bool" where
  "located i s px py ps w \<longleftrightarrow>
     id' w = i \<and> storedPlayerId w = s \<and> posX w = px \<and> posY w = py \<and>
     querySelectorAll ''player'' w = ps"

text \<open>The cells of a direction from step \<open>i\<close> on.\<close>

definition rayLine :: "dir \<Rightarrow> int \<Rightarrow> int \<Rightarrow> int \<Rightarrow> (int \<times> int) set" where
  "rayLine d x y i = {(x + dx d * j, y + dy d * j) | j. i \<le> j}"

text \<open>
  Step \<open>k\<close> is where the ray that starts at step \<open>i\<close> ends: every step up to \<open>k\<close> passes
  the blast check, no step before \<open>k\<close> holds a block, and short of the radius either the
  next step fails the blast check or step \<open>k\<close> itself holds a block.
\<close>

definition rayStops :: "int \<Rightarrow> world \<Rightarrow> dir \<Rightarrow> int \<Rightarrow> int \<Rightarrow> int \<Rightarrow> int \<Rightarrow> int \<Rightarrow> bool" where
  "rayStops T w d x y radius i k \<longleftrightarrow>
     i - 1 \<le> k \<and> k \<le> max (i - 1) radius \<and>
     (\<forall>j. i \<le> j \<and> j \<le> k \<longrightarrow> isValidExplosionPosition (x + dx d * j) (y + dy d * j)) \<and>
     (\<forall>j. i \<le> j \<and> j < k \<longrightarrow> \<not> hasBlock T w (x + dx d * j) (y + dy d * j)) \<and>
     (k < radius \<longrightarrow>
        \<not> isValidExplosionPosition (x + dx d * (k + 1)) (y + dy d * (k + 1)) \<or>
        i \<le> k \<and> hasBlock T w (x + dx d * k) (y + dy d * k))"

section \<open>Sample states\<close>

text \<open>
  A small scene for evaluating the model: the local player \<open>p1\<close> stands on cell (1, 1) with
  three lives and range 1, a destructible block lies on cell (1, 3), and a tile is 32
  pixels wide.
\<close>

definition samplePowerUpType :: PowerUpType where
  "samplePowerUpType = \<lparr>BOMB = Str ''bomb'', FLAME = Str ''flame'', SPEED = Str ''speed''\<rparr>"

definition sampleWorld :: world where
  "sampleWorld =
     \<lparr>isGamePaused = False, isGameOver = False, storedPlayerId = Some ''p1'',
      document =
        [\<lparr>handle = 0, elemId = ''player-p1'', className = [''player''], leftPx = 32, topPx = 32\<rparr>,
         \<lparr>handle = 1, elemId = [], className = [''block''], leftPx = 32, topPx = 96\<rparr>],
      nextHandle = 2, now = 0, timers = [], nextTimer = 0, trace = [],
      id' = ''p1'', posX = 1, posY = 1, direction = NONE, moving = False, speed = 3, lives = 3,
      invulnerable = False, invulnerabilityTimer = None, bombCapacity = 1, explosionRange = 1,
      playerElement = Some 0, bombCooldown = False, activeBombs = 0, gameContainer = True\<rparr>"

text \<open>The same player on the last life.\<close>

definition lastLifeWorld :: world where
  "lastLifeWorld = sampleWorld\<lparr>lives := 1\<rparr>"

text \<open>A hit by player \<open>p2\<close>, and verified power-ups for the sample player.\<close>

definition sampleHit :: eventData where
  "sampleHit = \<lparr>playerId = ''p1'', attackerId = Some ''p2'', dataType = Undefined,
                 dataValue = None, source = None\<rparr>"

definition extraLifePickup :: eventData where
  "extraLifePickup = \<lparr>playerId = ''p1'', attackerId = None, dataType = Str ''extraLife'',
                       dataValue = None, source = Some ''visual_verification''\<rparr>"

definition flamePickup :: eventData where
  "flamePickup = \<lparr>playerId = ''p1'', attackerId = None, dataType = Str ''flame'',
                   dataValue = None, source = Some ''visual_verification''\<rparr>"

text \<open>
  Three hits on the sample player, each followed by the invulnerability callback that
  it registered.
\<close>

definition threeHits :: "input list" where
  "threeHits = [On_player_hit sampleHit, Timeout 0, On_player_hit sampleHit, Timeout 1,
                On_player_hit sampleHit, Timeout 2]"

text \<open>The third entry of \<open>directions\<close>.\<close>

definition downward :: dir where
  "downward = \<lparr>dx = 0, dy = 1, name = ''down''\<rparr>"

text \<open>
  The sample world as the fuse callback finds it after the player placed a bomb and then
  collected the flame power-up.
\<close>

definition detonating :: world where
  "detonating =
     sampleWorld\<lparr>nextHandle := 3, now := 2000, timers := [(0, 1000, CooldownEnd)], nextTimer := 2,
       trace := [Send (DROP_BOMB 1 1 1), Emit (BombPlaced ''p1'' 1 1 1),
                 Emit (StatsUpdate ''p1'' 3 1 2 3)],
       explosionRange := 2, bombCooldown := True\<rparr>"

section \<open>Walls and bounds\<close>

text \<open>
  Claim C4. A cell with both coordinates even, or with \<open>x = 0\<close>, or with \<open>y = 0\<close>, is
  rejected by the movement check whatever the scene holds and by the blast check; a ray
  whose step \<open>i\<close> lands on such a cell returns at that step with the blast state unchanged,
  so that neither this cell nor any later one of the direction is processed.
\<close>

theorem walls_stop_movement_and_blast:
  assumes "(x mod 2 = 0 \<and> y mod 2 = 0) \<or> x = 0 \<or> y = 0"
  shows "\<not> isValidPosition T x y w \<and> \<not> isValidExplosionPosition x y \<and>
         explosionRay T d (x - dx d * i) (y - dy d * i) radius i b = b"
proof -
  have m: "\<not> isValidPosition T x y w"
    using assms by (auto simp: isValidPosition_def)
  have e: "\<not> isValidExplosionPosition x y"
    using assms by (auto simp: isValidExplosionPosition_def)
  have "explosionRay T d (x - dx d * i) (y - dy d * i) radius i b = b"
    using e by (subst explosionRay.simps) simp
  with m e show ?thesis by simp
qed

theorem walls_stop_movement_and_blast_witness:
  "((2::int) mod 2 = 0 \<and> (4::int) mod 2 = 0) \<and>
   \<not> isValidPosition 32 2 4 sampleWorld \<and> \<not> isValidExplosionPosition 2 4 \<and>
   explosionRay 32 \<lparr>dx = 0, dy = 1, name = ''down''\<rparr> 2 3 5 1 ({}, sampleWorld) = ({}, sampleWorld)"
proof -
  have h: "((2::int) mod 2 = 0 \<and> (4::int) mod 2 = 0) \<or> (2::int) = 0 \<or> (4::int) = 0" by simp
  show ?thesis
    using walls_stop_movement_and_blast
      [OF h, of 32 sampleWorld "\<lparr>dx = 0, dy = 1, name = ''down''\<rparr>" 1 5 "({}, sampleWorld)"]
    by simp
qed

text \<open>
  Claim C8. With \<open>GRID_WIDTH = 14\<close> and \<open>GRID_HEIGHT = 16\<close> the blast check accepts every
  cell of column 14 and of row 16 that lies inside the grid and is not a parity or border
  wall, and it accepts nothing beyond column 14 or row 16; the movement check rejects every
  cell with \<open>x \<ge> 14\<close> or \<open>y \<ge> 16\<close>; both checks reject \<open>x = 0\<close> and \<open>y = 0\<close>.
\<close>

theorem blast_bounds_include_far_border:
  "((x = 14 \<or> y = 16) \<and> 0 < x \<and> x \<le> 14 \<and> 0 < y \<and> y \<le> 16 \<and> \<not> (x mod 2 = 0 \<and> y mod 2 = 0)
      \<longrightarrow> isValidExplosionPosition x y) \<and>
   (isValidExplosionPosition x y \<longrightarrow> x \<le> 14 \<and> y \<le> 16) \<and>
   (x \<ge> 14 \<or> y \<ge> 16 \<longrightarrow> \<not> isValidPosition T x y w) \<and>
   (x = 0 \<or> y = 0 \<longrightarrow> \<not> isValidPosition T x y w \<and> \<not> isValidExplosionPosition x y)"
  by (auto simp: isValidExplosionPosition_def isValidPosition_def GRID_WIDTH_def GRID_HEIGHT_def)

theorem blast_bounds_include_far_border_witness:
  "isValidExplosionPosition 14 15 \<and> isValidExplosionPosition 13 16 \<and>
   \<not> isValidPosition 32 14 15 sampleWorld \<and> \<not> isValidPosition 32 13 16 sampleWorld \<and>
   \<not> isValidPosition 32 0 1 sampleWorld \<and> \<not> isValidExplosionPosition 0 1"
  using blast_bounds_include_far_border [of 14 15 32 sampleWorld]
    blast_bounds_include_far_border [of 13 16 32 sampleWorld]
    blast_bounds_include_far_border [of 0 1 32 sampleWorld]
  by simp

section \<open>Rejected actions\<close>

text \<open>
  Claim C7. A hit delivered while the \<open>invulnerable\<close> flag is set returns the world as it
  was: the lives, the trace of emitted events and relay messages, the pending callbacks and
  the stored timer identifier are all the same, so the invulnerability window is neither
  shortened nor extended.
\<close>

theorem hit_while_invulnerable_changes_nothing:
  assumes "invulnerable w"
  shows "handleHit data w = w \<and> step T P (On_player_hit data) w = w"
  using assms by (simp add: handleHit_def step_def)

theorem hit_while_invulnerable_changes_nothing_witness:
  "invulnerable (handleHit sampleHit sampleWorld) \<and>
   handleHit sampleHit (handleHit sampleHit sampleWorld) = handleHit sampleHit sampleWorld \<and>
   step 32 samplePowerUpType (On_player_hit sampleHit) (handleHit sampleHit sampleWorld)
     = handleHit sampleHit sampleWorld"
proof -
  have h: "invulnerable (handleHit sampleHit sampleWorld)"
    by (simp add: handleHit_def sampleHit_def sampleWorld_def Let_def setInvulnerable_def
          emit_def sendToServer_def setTimeout_def)
  show ?thesis
    using h hit_while_invulnerable_changes_nothing [OF h, of sampleHit 32 samplePowerUpType]
    by simp
qed

text \<open>
  Claim C6. A call of \<open>placeBomb\<close> while the cooldown flag is set, or with
  \<open>activeBombs \<ge> bombCapacity\<close>, or with a bomb element on the cell of the player, returns
  the world as it was: no field of the player changes, no bomb element is added, nothing is
  sent to the relay and nothing is emitted.
\<close>

theorem placeBomb_rejected_is_noop:
  assumes "bombCooldown w \<or> activeBombs w \<ge> bombCapacity w \<or>
           list_ex (atCell T (posX w) (posY w)) (querySelectorAll ''bomb'' w)"
  shows "placeBomb T w = w \<and> step T P Call_placeBomb w = w"
  using assms by (auto simp: placeBomb_def step_def)

theorem placeBomb_rejected_is_noop_witness:
  "bombCooldown (placeBomb 32 sampleWorld) \<and>
   placeBomb 32 (placeBomb 32 sampleWorld) = placeBomb 32 sampleWorld \<and>
   step 32 samplePowerUpType Call_placeBomb (placeBomb 32 sampleWorld) = placeBomb 32 sampleWorld"
proof -
  have h: "bombCooldown (placeBomb 32 sampleWorld)"
    by (simp add: placeBomb_def sampleWorld_def Let_def querySelectorAll_def atCell_def
          appendChild_def emit_def sendToServer_def setTimeout_def)
  show ?thesis
    using h placeBomb_rejected_is_noop [of "placeBomb 32 sampleWorld" 32 samplePowerUpType]
    by simp
qed

section \<open>Facts about the handlers\<close>

lemma find_fresh_timer:
  assumes "list_all (\<lambda>(i, due, a). i < (n::nat)) ts"
  shows "find (\<lambda>(i, due, a). i = n) (filter Q ts @ (n, d, c) # rest) = Some (n, d, c)"
  using assms by (induction ts) (auto split: prod.splits)

lemmas basic_defs = emit_def sendToServer_def setTimeout_def clearTimeout_def appendChild_def
  removeElement_def

lemma setInvulnerable_fields:
  "lives (setInvulnerable w) = lives w"
  "id' (setInvulnerable w) = id' w"
  "invulnerable (setInvulnerable w)"
  "invulnerabilityTimer (setInvulnerable w) = Some (nextTimer w)"
  "trace (setInvulnerable w) = trace w @ [Emit (InvulnerabilityStart (id' w))]"
  "playerElement (setInvulnerable w) = playerElement w"
  "document (setInvulnerable w) = document w"
  "now (setInvulnerable w) = now w"
  "nextTimer (setInvulnerable w) = Suc (nextTimer w)"
  "timers (setInvulnerable w) =
     filter (\<lambda>(i, due, a). Some i \<noteq> invulnerabilityTimer w) (timers w)
       @ [(nextTimer w, now w + 2000, InvulnerabilityTimeout)]"
  by (cases "invulnerabilityTimer w";
      simp add: setInvulnerable_def basic_defs Let_def invulnerabilityDuration_def)+

lemma removePlayerElement_fields:
  "lives (removePlayerElement w) = lives w"
  "id' (removePlayerElement w) = id' w"
  "invulnerable (removePlayerElement w) = invulnerable w"
  "invulnerabilityTimer (removePlayerElement w) = invulnerabilityTimer w"
  "trace (removePlayerElement w) = trace w"
  "now (removePlayerElement w) = now w"
  "timers (removePlayerElement w) =
     timers w @ (case playerElement w of None \<Rightarrow> []
                 | Some h \<Rightarrow> if attached h w then [(nextTimer w, now w + 500, RemovePlayerElement)]
                             else [])"
  by (simp_all add: removePlayerElement_def basic_defs split: option.splits)

lemmas hit_simps = handleHit_def Let_def setInvulnerable_fields removePlayerElement_fields
        emit_def sendToServer_def

lemma handleHit_lives:
  assumes "playerId data = id' w" "\<not> invulnerable w"
  shows "lives (handleHit data w) = lives w - 1"
  using assms by (simp add: hit_simps)

lemma handleHit_invulnerable:
  assumes "playerId data = id' w"
  shows "invulnerable (handleHit data w)"
  using assms by (simp add: hit_simps)

lemma handleHit_trace:
  assumes "playerId data = id' w" "\<not> invulnerable w"
  shows "trace (handleHit data w) =
           trace w @
           [Emit (PlayerDamaged (id' w) (lives w - 1)),
            Send (PLAYER_HIT (id' w) (attackerOr (attackerId data) (id' w))),
            Emit (InvulnerabilityStart (id' w))] @
           (if lives w - 1 \<le> 0 then
              [Emit (PlayerEliminated (id' w) (attackerOr (attackerId data) (id' w))),
               Send (player_eliminated (id' w) (attackerOr (attackerId data) (id' w)))] @
              (if attackerId data = Some (id' w)
               then [Send (PLAYER_ELIMINATED (id' w) (id' w) True)] else [])
            else [])"
  using assms by (simp add: hit_simps)

lemma handleHit_timers:
  assumes "playerId data = id' w" "\<not> invulnerable w"
  shows "\<exists>rest. timers (handleHit data w) =
           filter (\<lambda>(i, due, a). Some i \<noteq> invulnerabilityTimer w) (timers w)
             @ (nextTimer w, now w + 2000, InvulnerabilityTimeout) # rest"
  using assms by (simp add: hit_simps)

lemma handleHit_misc:
  "id' (handleHit data w) = id' w"
  "now (handleHit data w) = now w"
  by (simp_all add: hit_simps)

lemma handleHit_invulnerabilityTimer:
  assumes "playerId data = id' w" "\<not> invulnerable w"
  shows "invulnerabilityTimer (handleHit data w) = Some (nextTimer w)"
  using assms by (simp add: hit_simps)

lemma stableD:
  assumes "stable Q" "Q w"
  shows "Q (emit e w)" "Q (sendToServer m w)" "Q (handleHit d w)"
    "a \<noteq> InvulnerabilityTimeout \<Longrightarrow> Q (setTimeout a n w)"
    "Q (appendChild [] [''empty-space''] l t w)"
  using assms unfolding stable_def by simp_all

lemma blastStableD:
  assumes "blastStable Q" "Q w"
  shows "Q (appendChild [] [''explosion'', c] l t w)"
  using assms unfolding blastStable_def by simp

lemma stable_destroyBlock:
  assumes "stable Q" "Q w"
  shows "Q (destroyBlock x y w e)"
  unfolding destroyBlock_def Let_def
  by (intro stableD [OF assms(1)] assms(2) conjI impI | simp)+

lemma stable_destroyBlocks:
  assumes "stable Q" "Q w"
  shows "Q (foldl (destroyBlock x y) w es)"
  using assms(2) by (induction es arbitrary: w) (simp_all add: stable_destroyBlock [OF assms(1)])

lemma stable_destroyBlockAt:
  assumes "stable Q" "Q (snd b)"
  shows "Q (snd (snd (destroyBlockAt T x y b)))"
  using assms(2)
  by (cases b) (simp add: destroyBlockAt_def Let_def stable_destroyBlocks [OF assms(1)])

lemma stable_emitHit:
  assumes "stable Q" "Q w"
  shows "Q (emitHit p a w)"
  unfolding emitHit_def by (intro stableD [OF assms(1)] assms(2))

lemma stable_hitLoop:
  assumes "stable Q" "Q w"
  shows "Q (foldl (\<lambda>v player. if atCell T x y player
                                then emitHit (replace ''player-'' [] (elemId player)) (id' v) v
                                else v) w es)"
  using assms(2) by (induction es arbitrary: w) (simp_all add: stable_emitHit [OF assms(1)])

lemma stable_checkPlayerHit:
  assumes "stable Q" "Q w"
  shows "Q (checkPlayerHit T x y w)"
  unfolding checkPlayerHit_def by (rule stable_hitLoop [OF assms])

lemma stable_selfHitCenter:
  assumes "stable Q" "Q w"
  shows "Q (selfHitCenter x y w)"
  using assms(2) by (simp add: selfHitCenter_def stable_emitHit [OF assms(1)])

lemma stable_selfHitRay:
  assumes "stable Q" "Q w"
  shows "Q (selfHitRay x y w)"
proof -
  have "Q (sendToServer m (emitHit p a w))" for m p a
    by (intro stableD [OF assms(1)] stable_emitHit [OF assms])
  then show ?thesis using assms(2) by (simp add: selfHitRay_def Let_def)
qed

text \<open>What follows the rendering of a blast keeps a stable property of the rendered world.\<close>

lemma stable_explodeCell_rendered:
  assumes "stable Q"
    and "Q (appendChild [] [''explosion'', name d] (ex * T) (ey * T) (snd b))"
  shows "Q (snd (snd (explodeCell T d ex ey b)))"
proof -
  obtain D w where b: "b = (D, w)" by (cases b)
  let ?w1 = "appendChild [] [''explosion'', name d] (ex * T) (ey * T) w"
  have q1: "Q ?w1" using assms(2) b by simp
  obtain r D' w2 where db: "destroyBlockAt T ex ey (D, ?w1) = (r, D', w2)"
    by (cases "destroyBlockAt T ex ey (D, ?w1)") auto
  have q2: "Q w2"
    using stable_destroyBlockAt [OF assms(1), of "(D, ?w1)" T ex ey] q1 by (simp add: db)
  have q4: "Q (selfHitRay ex ey (checkPlayerHit T ex ey w2))"
    by (intro stable_selfHitRay [OF assms(1)] stable_checkPlayerHit [OF assms(1)] q2)
  have "Q (setTimeout (RemoveElement h) 500 (selfHitRay ex ey (checkPlayerHit T ex ey w2)))" for h
    using q4 by (intro stableD [OF assms(1)]) simp_all
  then show ?thesis
    by (simp add: explodeCell_def b db Let_def)
qed

lemma stable_explosionRay_named:
  assumes "stable Q"
  shows "(\<forall>v l t. Q v \<longrightarrow> Q (appendChild [] [''explosion'', name d] l t v)) \<Longrightarrow> Q (snd b) \<Longrightarrow>
         Q (snd (explosionRay T d x y radius i b))"
proof (induction T d x y radius i b rule: explosionRay.induct)
  case (1 T d x y radius i b)
  note ap = "1.prems"(1) and qb0 = "1.prems"(2)
  show ?case
  proof (cases "i \<le> radius \<and> isValidExplosionPosition (x + dx d * i) (y + dy d * i)")
    case False
    then show ?thesis using qb0 by (subst explosionRay.simps) auto
  next
    case True
    obtain r b' where ec: "explodeCell T d (x + dx d * i) (y + dy d * i) b = (r, b')"
      by (cases "explodeCell T d (x + dx d * i) (y + dy d * i) b") auto
    have "Q (appendChild [] [''explosion'', name d] ((x + dx d * i) * T) ((y + dy d * i) * T)
               (snd b))"
      using ap qb0 by simp
    then have "Q (snd (snd (explodeCell T d (x + dx d * i) (y + dy d * i) b)))"
      by (rule stable_explodeCell_rendered [OF assms(1)])
    then have qb: "Q (snd b')"
      by (simp add: ec)
    show ?thesis
    proof (cases r)
      case True
      with \<open>i \<le> radius \<and> _\<close> ec qb show ?thesis by (subst explosionRay.simps) simp
    next
      case False
      have "Q (snd (explosionRay T d x y radius (i + 1) b'))"
        by (rule "1.IH" [OF _ _ ec [symmetric] _ ap qb]) (use True False in auto)
      with True ec False show ?thesis by (subst explosionRay.simps) simp
    qed
  qed
qed

lemma stable_explosionRay:
  assumes "stable Q" "blastStable Q" "Q (snd b)"
  shows "Q (snd (explosionRay T d x y radius i b))"
  using stable_explosionRay_named [OF assms(1) _ assms(3)] assms(2)
  unfolding blastStable_def by simp

lemma stable_rays:
  assumes "stable Q" "blastStable Q"
  shows "Q (snd b) \<Longrightarrow> Q (snd (foldl (\<lambda>b d. explosionRay T d x y radius 1 b) b ds))"
  by (induction ds arbitrary: b) (simp_all add: stable_explosionRay [OF assms])

lemma stable_explodeCenter_rendered:
  assumes "stable Q"
    and "Q (appendChild [] [''explosion'', ''center''] (x * T) (y * T) w)"
  shows "Q (snd (explodeCenter T x y w))"
proof -
  let ?w2 = "setTimeout (RemoveElement (nextHandle w)) 500
               (appendChild [] [''explosion'', ''center''] (x * T) (y * T) w)"
  have q2: "Q ?w2" by (intro stableD [OF assms(1)] assms(2)) simp_all
  obtain r D w3 where db: "destroyBlockAt T x y ({}, ?w2) = (r, D, w3)"
    by (cases "destroyBlockAt T x y ({}, ?w2)") auto
  have q3: "Q w3"
    using stable_destroyBlockAt [OF assms(1), of "({}, ?w2)" T x y] q2 by (simp add: db)
  have "Q (selfHitCenter x y (checkPlayerHit T x y w3))"
    by (intro stable_selfHitCenter [OF assms(1)] stable_checkPlayerHit [OF assms(1)] q3)
  then show ?thesis by (simp add: explodeCenter_def Let_def db)
qed

lemma stable_createExplosion:
  assumes "stable Q" "blastStable Q" "Q w"
  shows "Q (createExplosion T x y radius w)"
proof (cases "gameContainer w")
  case False
  then show ?thesis using assms(3) by (simp add: createExplosion_def)
next
  case True
  have "Q (snd (explodeCenter T x y w))"
    by (rule stable_explodeCenter_rendered [OF assms(1) blastStableD [OF assms(2,3)]])
  then have "Q (snd (foldl (\<lambda>b d. explosionRay T d x y radius 1 b)
                  (explodeCenter T x y w) directions))"
    by (rule stable_rays [OF assms(1,2)])
  then show ?thesis using True by (simp add: createExplosion_def)
qed

lemma setInvulnerable_frame:
  "posX (setInvulnerable w) = posX w"
  "posY (setInvulnerable w) = posY w"
  "storedPlayerId (setInvulnerable w) = storedPlayerId w"
  "gameContainer (setInvulnerable w) = gameContainer w"
  "nextHandle (setInvulnerable w) = nextHandle w"
  by (cases "invulnerabilityTimer w"; simp add: setInvulnerable_def basic_defs Let_def)+

lemma removePlayerElement_frame:
  "posX (removePlayerElement w) = posX w"
  "posY (removePlayerElement w) = posY w"
  "storedPlayerId (removePlayerElement w) = storedPlayerId w"
  "gameContainer (removePlayerElement w) = gameContainer w"
  "document (removePlayerElement w) = document w"
  "nextHandle (removePlayerElement w) = nextHandle w"
  by (simp_all add: removePlayerElement_def basic_defs split: option.splits)

lemma handleHit_frame:
  "posX (handleHit data w) = posX w"
  "posY (handleHit data w) = posY w"
  "storedPlayerId (handleHit data w) = storedPlayerId w"
  "gameContainer (handleHit data w) = gameContainer w"
  "document (handleHit data w) = document w"
  "nextHandle (handleHit data w) = nextHandle w"
  by (simp_all add: hit_simps setInvulnerable_frame removePlayerElement_frame)

lemma handleHit_lives_le: "lives (handleHit data w) \<le> lives w"
  by (simp add: hit_simps)

lemma handleHit_noop: "invulnerable w \<Longrightarrow> handleHit data w = w"
  by (simp add: handleHit_def)

lemma stable_lives: "stable (\<lambda>w. lives w \<le> (n::int))"
proof -
  have "lives (handleHit d w) \<le> n" if "lives w \<le> n" for d w
    using handleHit_lives_le [of d w] that by linarith
  then show ?thesis unfolding stable_def by (simp add: basic_defs)
qed

lemma blastStable_lives: "blastStable (\<lambda>w. lives w \<le> (n::int))"
  by (simp add: blastStable_def appendChild_def)

lemma createExplosion_lives: "lives (createExplosion T x y radius w) \<le> lives w"
  using stable_createExplosion [OF stable_lives [of "lives w"] blastStable_lives, of w] by simp

lemma fireTimer_lives: "lives (fireTimer T t w) \<le> lives w"
proof (cases "find (\<lambda>(i, due, a). i = t) (timers w)")
  case None
  then show ?thesis by (simp add: fireTimer_def)
next
  case (Some e)
  obtain i due a where e: "e = (i, due, a)" by (cases e)
  let ?v = "w\<lparr>timers := filter (\<lambda>(j, d, c). j \<noteq> t) (timers w), now := max (now w) due\<rparr>"
  have "lives (runAction T a ?v) \<le> lives ?v"
  proof (cases a)
    case (Fuse bomb gx gy)
    then show ?thesis
      using createExplosion_lives
        [of T gx gy "explosionRange ?v" "(removeElement bomb ?v)\<lparr>activeBombs := activeBombs ?v - 1\<rparr>"]
      by (simp add: runAction_def Let_def removeElement_def)
  qed (simp_all add: runAction_def Let_def basic_defs split: option.splits)
  then show ?thesis by (simp add: fireTimer_def Some e)
qed

lemma placeBomb_lives: "lives (placeBomb T w) = lives w"
  by (simp add: placeBomb_def Let_def basic_defs)

lemma toLowerCase_extraLife: "toLowerCase ''extraLife'' = ''extralife''"
  by (simp add: toLowerCase_def)

lemma handlePowerUp_lives:
  "lives (handlePowerUp P data w) =
     (if playerId data = id' w \<and> source data = Some ''visual_verification'' \<and>
         dataType data = Str ''extraLife'' \<and> Str ''extraLife'' \<notin> {BOMB P, FLAME P, SPEED P}
      then lives w + 1 else lives w)"
  by (cases "dataType data")
     (auto simp: handlePowerUp_def Let_def emitStatsUpdate_def emit_def toLowerCase_extraLife)

lemma handleStatUpdate_lives:
  "lives (handleStatUpdate P data w) =
     (if playerId data = id' w \<and> dataType data = Str ''extraLife'' \<and>
         Str ''extraLife'' \<notin> {BOMB P, FLAME P, SPEED P}
      then lives w + 1 else lives w)"
  by (auto simp: handleStatUpdate_def Let_def emitStatsUpdate_def emit_def)

section \<open>Lives and elimination\<close>

text \<open>
  Claim C5, as amended. Lives grow only through the two \<open>extraLife\<close> branches: a
  \<open>stat:updated\<close> event of type \<open>extraLife\<close>, or a \<open>powerup:applied\<close> event of type
  \<open>extraLife\<close> that carries the visual verification, addressed to the player, adds
  exactly one life (provided no member of \<open>PowerUpType\<close> is the string \<open>extraLife\<close>, which
  an earlier \<open>case\<close> would catch). Every other input, that is a hit, any other power-up or
  stat update, the game flags, \<open>placeBomb\<close>, \<open>createExplosion\<close> and every timer callback,
  leaves the lives as they are or lowers them.
\<close>

theorem lives_increase_only_by_extra_life:
  "(Str ''extraLife'' \<notin> {BOMB P, FLAME P, SPEED P} \<and>
    (\<exists>data. playerId data = id' w \<and> dataType data = Str ''extraLife'' \<and>
       (i = On_stat_updated data \<or>
        i = On_powerup_applied data \<and> source data = Some ''visual_verification''))
      \<longrightarrow> lives (step T P i w) = lives w + 1) \<and>
   (\<not> (Str ''extraLife'' \<notin> {BOMB P, FLAME P, SPEED P} \<and>
       (\<exists>data. playerId data = id' w \<and> dataType data = Str ''extraLife'' \<and>
          (i = On_stat_updated data \<or>
           i = On_powerup_applied data \<and> source data = Some ''visual_verification'')))
      \<longrightarrow> lives (step T P i w) \<le> lives w)"
proof (cases i)
  case (On_powerup_applied data)
  then show ?thesis by (auto simp: step_def handlePowerUp_lives)
next
  case (On_stat_updated data)
  then show ?thesis by (auto simp: step_def handleStatUpdate_lives)
next
  case (On_player_hit data)
  then show ?thesis by (simp add: step_def handleHit_lives_le)
next
  case Call_placeBomb
  then show ?thesis by (simp add: step_def placeBomb_lives)
next
  case (Call_createExplosion x y radius)
  then show ?thesis by (simp add: step_def createExplosion_lives)
next
  case (Timeout t)
  then show ?thesis by (simp add: step_def fireTimer_lives)
qed (simp_all add: step_def)

theorem lives_increase_only_by_extra_life_witness:
  "lives (step 32 samplePowerUpType (On_powerup_applied extraLifePickup) sampleWorld) = 4 \<and>
   lives (step 32 samplePowerUpType (On_player_hit sampleHit) sampleWorld) \<le> 3"
  using lives_increase_only_by_extra_life
      [of samplePowerUpType sampleWorld "On_powerup_applied extraLifePickup" 32]
    lives_increase_only_by_extra_life
      [of samplePowerUpType sampleWorld "On_player_hit sampleHit" 32]
  by (simp add: samplePowerUpType_def sampleWorld_def extraLifePickup_def)

text \<open>
  Claim C5 as stated fails: a verified \<open>extraLife\<close> power-up, and an \<open>extraLife\<close> stat
  update, raise the lives of the sample player from 3 to 4.
\<close>

theorem extra_life_increases_lives:
  "lives sampleWorld = 3 \<and>
   lives (step 32 samplePowerUpType (On_powerup_applied extraLifePickup) sampleWorld) = 4 \<and>
   lives (step 32 samplePowerUpType (On_stat_updated extraLifePickup) sampleWorld) = 4"
  by (simp add: step_def handlePowerUp_def handleStatUpdate_def samplePowerUpType_def
        sampleWorld_def extraLifePickup_def toLowerCase_def emitStatsUpdate_def emit_def Let_def)

lemma stable_shielded: "stable (shielded t)"
  unfolding stable_def shielded_def
  by (auto simp: basic_defs handleHit_noop)

lemma blastStable_shielded: "blastStable (shielded t)"
  by (simp add: blastStable_def shielded_def appendChild_def)

lemma handleHit_shielded:
  assumes "playerId data = id' w" "\<not> invulnerable w" "singleInvulnerabilityTimer w"
  shows "shielded (nextTimer w) (handleHit data w)"
  using assms
  by (auto simp: shielded_def singleInvulnerabilityTimer_def hit_simps list_all_iff
      split: option.splits)

lemma handlePowerUp_shield:
  "invulnerable (handlePowerUp P data w) = invulnerable w"
  "timers (handlePowerUp P data w) = timers w"
  by (cases "dataType data";
      simp add: handlePowerUp_def Let_def emitStatsUpdate_def emit_def)+

lemma handleStatUpdate_shield:
  "invulnerable (handleStatUpdate P data w) = invulnerable w"
  "timers (handleStatUpdate P data w) = timers w"
  by (simp_all add: handleStatUpdate_def Let_def emitStatsUpdate_def emit_def)

lemma placeBomb_shielded: "shielded t w \<Longrightarrow> shielded t (placeBomb T w)"
  by (simp add: shielded_def placeBomb_def Let_def basic_defs)

lemma find_timer:
  assumes "find (\<lambda>(i, due, a). i = t) ts = Some (i, due, a)"
  shows "i = t \<and> (i, due, a) \<in> set ts"
  using assms by (induction ts) (auto split: if_splits)

lemma fireTimer_shielded:
  assumes "shielded t w" "t' \<noteq> t"
  shows "shielded t (fireTimer T t' w)"
proof (cases "find (\<lambda>(i, due, a). i = t') (timers w)")
  case None
  then show ?thesis using assms(1) by (simp add: fireTimer_def)
next
  case (Some e)
  obtain i due a where e: "e = (i, due, a)" by (cases e)
  have mem: "i = t' \<and> (i, due, a) \<in> set (timers w)"
    using find_timer Some e by simp
  have na: "a \<noteq> InvulnerabilityTimeout"
    using assms mem by (auto simp: shielded_def list_all_iff)
  let ?v = "w\<lparr>timers := filter (\<lambda>(j, d, c). j \<noteq> t') (timers w), now := max (now w) due\<rparr>"
  have sv: "shielded t ?v"
    using assms(1) by (auto simp: shielded_def list_all_iff)
  have "shielded t (runAction T a ?v)"
  proof (cases a)
    case (Fuse bomb gx gy)
    have "shielded t ((removeElement bomb ?v)\<lparr>activeBombs := activeBombs ?v - 1\<rparr>)"
      using sv by (simp add: shielded_def removeElement_def)
    then show ?thesis
      using stable_createExplosion [OF stable_shielded blastStable_shielded] Fuse
      by (simp add: runAction_def Let_def removeElement_def)
  next
    case InvulnerabilityTimeout
    with na show ?thesis by simp
  qed (use sv in \<open>simp_all add: runAction_def Let_def shielded_def basic_defs split: option.splits\<close>)
  then show ?thesis by (simp add: fireTimer_def Some e)
qed

lemma step_shielded:
  assumes "shielded t w" "i \<noteq> Timeout t"
  shows "shielded t (step T P i w)"
proof (cases i)
  case (On_powerup_applied data)
  then show ?thesis using assms(1) by (simp add: step_def shielded_def handlePowerUp_shield)
next
  case (On_stat_updated data)
  then show ?thesis using assms(1) by (simp add: step_def shielded_def handleStatUpdate_shield)
next
  case (On_player_hit data)
  then show ?thesis using assms(1) by (simp add: step_def shielded_def handleHit_noop)
next
  case Call_placeBomb
  then show ?thesis using assms(1) by (simp add: step_def placeBomb_shielded)
next
  case (Call_createExplosion x y radius)
  then show ?thesis
    using stable_createExplosion [OF stable_shielded blastStable_shielded assms(1)]
    by (simp add: step_def)
next
  case (Timeout t')
  then show ?thesis using assms fireTimer_shielded by (simp add: step_def)
qed (use assms(1) in \<open>simp_all add: step_def shielded_def\<close>)

lemma run_shielded:
  assumes "Timeout t \<notin> set ins"
  shows "shielded t w \<Longrightarrow> shielded t (run T P ins w)"
  using assms unfolding run_def
  by (induction ins arbitrary: w) (auto simp: step_shielded)

text \<open>
  Claim C2, as amended. The fatal hit leaves the player with no lives and with the
  \<open>invulnerable\<close> flag set, and the flag stays set under every sequence of inputs that does
  not run the invulnerability callback registered by that hit; a \<open>player:hit\<close> event
  delivered after any such sequence returns the world as it was, so it takes no life,
  emits nothing and sends nothing.
\<close>

theorem eliminated_player_ignores_hits_until_window_ends:
  assumes "playerId data = id' w" and "\<not> invulnerable w" and "lives w \<le> 1"
    and "singleInvulnerabilityTimer w" and "Timeout (nextTimer w) \<notin> set ins"
  shows "lives (handleHit data w) \<le> 0 \<and>
         invulnerable (run T P ins (handleHit data w)) \<and>
         handleHit d (run T P ins (handleHit data w)) = run T P ins (handleHit data w)"
proof -
  have "shielded (nextTimer w) (run T P ins (handleHit data w))"
    by (rule run_shielded [OF assms(5) handleHit_shielded [OF assms(1,2,4)]])
  then have inv: "invulnerable (run T P ins (handleHit data w))"
    by (simp add: shielded_def)
  show ?thesis
    using handleHit_lives [OF assms(1,2)] assms(3) inv handleHit_noop [OF inv] by simp
qed

theorem eliminated_player_ignores_hits_until_window_ends_witness:
  "playerId sampleHit = id' lastLifeWorld \<and> \<not> invulnerable lastLifeWorld \<and>
   lives lastLifeWorld \<le> 1 \<and> singleInvulnerabilityTimer lastLifeWorld \<and>
   lives (handleHit sampleHit lastLifeWorld) \<le> 0 \<and>
   invulnerable (run 32 samplePowerUpType [Call_placeBomb, Timeout 1, On_player_hit sampleHit]
                   (handleHit sampleHit lastLifeWorld)) \<and>
   handleHit sampleHit
     (run 32 samplePowerUpType [Call_placeBomb, Timeout 1, On_player_hit sampleHit]
        (handleHit sampleHit lastLifeWorld))
   = run 32 samplePowerUpType [Call_placeBomb, Timeout 1, On_player_hit sampleHit]
       (handleHit sampleHit lastLifeWorld)"
proof -
  have h1: "playerId sampleHit = id' lastLifeWorld"
    by (simp add: sampleHit_def lastLifeWorld_def sampleWorld_def)
  have h2: "\<not> invulnerable lastLifeWorld"
    by (simp add: lastLifeWorld_def sampleWorld_def)
  have h3: "lives lastLifeWorld \<le> 1"
    by (simp add: lastLifeWorld_def sampleWorld_def)
  have h4: "singleInvulnerabilityTimer lastLifeWorld"
    by (simp add: singleInvulnerabilityTimer_def lastLifeWorld_def sampleWorld_def)
  have h5: "Timeout (nextTimer lastLifeWorld)
              \<notin> set [Call_placeBomb, Timeout 1, On_player_hit sampleHit]"
    by (simp add: lastLifeWorld_def sampleWorld_def)
  show ?thesis
    using h1 h2 h3 h4
      eliminated_player_ignores_hits_until_window_ends
        [OF h1 h2 h3 h4 h5, of 32 samplePowerUpType sampleHit]
    by simp
qed

lemmas eval_defs = run_def step_def handleHit_def setInvulnerable_def removePlayerElement_def
  attached_def attackerOr_def fireTimer_def runAction_def emit_def sendToServer_def
  setTimeout_def clearTimeout_def invulnerabilityDuration_def Let_def

text \<open>
  Claim C2 as stated fails: the sample player is hit three times, each time after the
  previous invulnerability callback has run, and is eliminated with 0 lives; once the last
  callback has run, a fourth hit is accepted, takes the lives to -1 and repeats the damage
  event, the \<open>PLAYER_HIT\<close> announcement and the elimination announcement.
\<close>

theorem eliminated_player_hit_again:
  "lives (run 32 samplePowerUpType threeHits sampleWorld) = 0 \<and>
   lives (step 32 samplePowerUpType (On_player_hit sampleHit)
            (run 32 samplePowerUpType threeHits sampleWorld)) = - 1 \<and>
   trace (step 32 samplePowerUpType (On_player_hit sampleHit)
            (run 32 samplePowerUpType threeHits sampleWorld)) =
     trace (run 32 samplePowerUpType threeHits sampleWorld) @
     [Emit (PlayerDamaged ''p1'' (- 1)), Send (PLAYER_HIT ''p1'' ''p2''),
      Emit (InvulnerabilityStart ''p1''), Emit (PlayerEliminated ''p1'' ''p2''),
      Send (player_eliminated ''p1'' ''p2'')]"
  by (simp add: threeHits_def sampleWorld_def sampleHit_def eval_defs)

section \<open>The fatal hit\<close>

text \<open>
  Claim C9. An accepted hit takes one life, emits \<open>player:damaged\<close>, announces
  \<open>PLAYER_HIT\<close> and then calls \<open>setInvulnerable\<close> before it looks at the lives: the trace
  shows \<open>player:invulnerabilityStart\<close> ahead of \<open>player:eliminated\<close>, and the player whose
  lives reached 0 is invulnerable. The callback registered by that call is due 2000 ms
  later; when it runs, the flag clears, the lives are still those after the hit, and
  \<open>player:invulnerabilityEnd\<close> is emitted for the player.
\<close>

theorem fatal_hit_sets_invulnerable_first:
  assumes "playerId data = id' w" and "\<not> invulnerable w" and "timersFresh w"
  shows "invulnerable (handleHit data w) \<and>
         lives (handleHit data w) = lives w - 1 \<and>
         trace (handleHit data w) =
           trace w @
           [Emit (PlayerDamaged (id' w) (lives w - 1)),
            Send (PLAYER_HIT (id' w) (attackerOr (attackerId data) (id' w))),
            Emit (InvulnerabilityStart (id' w))] @
           (if lives w - 1 \<le> 0 then
              [Emit (PlayerEliminated (id' w) (attackerOr (attackerId data) (id' w))),
               Send (player_eliminated (id' w) (attackerOr (attackerId data) (id' w)))] @
              (if attackerId data = Some (id' w)
               then [Send (PLAYER_ELIMINATED (id' w) (id' w) True)] else [])
            else []) \<and>
         invulnerabilityTimer (handleHit data w) = Some (nextTimer w) \<and>
         find (\<lambda>(i, due, a). i = nextTimer w) (timers (handleHit data w))
           = Some (nextTimer w, now w + 2000, InvulnerabilityTimeout) \<and>
         \<not> invulnerable (fireTimer T (nextTimer w) (handleHit data w)) \<and>
         lives (fireTimer T (nextTimer w) (handleHit data w)) = lives w - 1 \<and>
         now (fireTimer T (nextTimer w) (handleHit data w)) = now w + 2000 \<and>
         trace (fireTimer T (nextTimer w) (handleHit data w))
           = trace (handleHit data w) @ [Emit (InvulnerabilityEnd (id' w))]"
proof -
  let ?v = "handleHit data w"
  obtain rest where ts: "timers ?v =
      filter (\<lambda>(i, due, a). Some i \<noteq> invulnerabilityTimer w) (timers w)
        @ (nextTimer w, now w + 2000, InvulnerabilityTimeout) # rest"
    using handleHit_timers [OF assms(1,2)] by blast
  have fresh: "list_all (\<lambda>(i, due, a). i < nextTimer w) (timers w)"
    using assms(3) by (simp add: timersFresh_def)
  have f: "find (\<lambda>(i, due, a). i = nextTimer w) (timers ?v)
             = Some (nextTimer w, now w + 2000, InvulnerabilityTimeout)"
    unfolding ts by (rule find_fresh_timer [OF fresh])
  have fire: "fireTimer T (nextTimer w) ?v =
      emit (InvulnerabilityEnd (id' w))
        (?v\<lparr>timers := filter (\<lambda>(j, d, c). j \<noteq> nextTimer w) (timers ?v),
             now := now w + 2000, invulnerable := False, invulnerabilityTimer := None\<rparr>)"
    by (simp add: fireTimer_def f runAction_def handleHit_misc Let_def)
  show ?thesis
    unfolding fire
    using handleHit_invulnerable [OF assms(1)] handleHit_lives [OF assms(1,2)]
      handleHit_trace [OF assms(1,2)] handleHit_invulnerabilityTimer [OF assms(1,2)] f
    by (simp add: emit_def)
qed

theorem fatal_hit_sets_invulnerable_first_witness:
  "playerId sampleHit = id' lastLifeWorld \<and> \<not> invulnerable lastLifeWorld \<and>
   timersFresh lastLifeWorld \<and>
   invulnerable (handleHit sampleHit lastLifeWorld) \<and>
   lives (handleHit sampleHit lastLifeWorld) = 0 \<and>
   \<not> invulnerable (fireTimer 32 0 (handleHit sampleHit lastLifeWorld)) \<and>
   now (fireTimer 32 0 (handleHit sampleHit lastLifeWorld)) = 2000 \<and>
   trace (fireTimer 32 0 (handleHit sampleHit lastLifeWorld)) =
     [Emit (PlayerDamaged ''p1'' 0), Send (PLAYER_HIT ''p1'' ''p2''),
      Emit (InvulnerabilityStart ''p1''), Emit (PlayerEliminated ''p1'' ''p2''),
      Send (player_eliminated ''p1'' ''p2''), Emit (InvulnerabilityEnd ''p1'')]"
proof -
  have h1: "playerId sampleHit = id' lastLifeWorld"
    by (simp add: sampleHit_def lastLifeWorld_def sampleWorld_def)
  have h2: "\<not> invulnerable lastLifeWorld"
    by (simp add: lastLifeWorld_def sampleWorld_def)
  have h3: "timersFresh lastLifeWorld"
    by (simp add: timersFresh_def lastLifeWorld_def sampleWorld_def)
  show ?thesis
    using h1 h2 h3 fatal_hit_sets_invulnerable_first [OF h1 h2 h3, of 32]
    by (simp add: lastLifeWorld_def sampleWorld_def sampleHit_def attackerOr_def)
qed

section \<open>The conditions on the pending callbacks are invariants\<close>

text \<open>
  The two conditions on the pending callbacks that the theorems on the fatal hit and on
  the invulnerability window assume hold in the sample world and are kept by every input.
\<close>

lemma removePlayerElement_wellFormed:
  "timersWellFormed w \<Longrightarrow> timersWellFormed (removePlayerElement w)"
  by (auto simp: timersWellFormed_def timersFresh_def singleInvulnerabilityTimer_def
        removePlayerElement_def setTimeout_def list_all_iff split: option.splits)

lemma setInvulnerable_wellFormed:
  "timersWellFormed w \<Longrightarrow> timersWellFormed (setInvulnerable w)"
  by (cases "invulnerabilityTimer w")
     (auto simp: timersWellFormed_def timersFresh_def singleInvulnerabilityTimer_def
        setInvulnerable_def basic_defs Let_def list_all_iff)

lemma wellFormed_simps:
  "timersWellFormed (emit e v) = timersWellFormed v"
  "timersWellFormed (sendToServer m v) = timersWellFormed v"
  "timersWellFormed (v\<lparr>lives := n\<rparr>) = timersWellFormed v"
  "timersWellFormed (appendChild i cs l t v) = timersWellFormed v"
  "timersWellFormed (removeElement h v) = timersWellFormed v"
  by (simp_all add: timersWellFormed_def timersFresh_def singleInvulnerabilityTimer_def
        basic_defs)

lemma setTimeout_wellFormed:
  assumes "a \<noteq> InvulnerabilityTimeout" "timersWellFormed v"
  shows "timersWellFormed (setTimeout a n v)"
  using assms
  by (auto simp: timersWellFormed_def timersFresh_def singleInvulnerabilityTimer_def
        setTimeout_def list_all_iff)

lemma handleHit_wellFormed:
  assumes "timersWellFormed w"
  shows "timersWellFormed (handleHit data w)"
  using assms
  by (simp add: handleHit_def Let_def wellFormed_simps setInvulnerable_wellFormed
        removePlayerElement_wellFormed)

lemma stable_wellFormed: "stable timersWellFormed"
  unfolding stable_def
  by (simp add: wellFormed_simps setTimeout_wellFormed handleHit_wellFormed)

lemma blastStable_wellFormed: "blastStable timersWellFormed"
  unfolding blastStable_def by (simp add: wellFormed_simps)

lemma placeBomb_wellFormed:
  assumes "timersWellFormed w"
  shows "timersWellFormed (placeBomb T w)"
proof -
  have "timersWellFormed (v\<lparr>activeBombs := n\<rparr>) = timersWellFormed v"
    "timersWellFormed (v\<lparr>bombCooldown := c\<rparr>) = timersWellFormed v" for v n c
    by (simp_all add: timersWellFormed_def timersFresh_def singleInvulnerabilityTimer_def)
  then show ?thesis
    using assms by (simp add: placeBomb_def Let_def wellFormed_simps setTimeout_wellFormed)
qed

lemma fireTimer_wellFormed:
  assumes "timersWellFormed w"
  shows "timersWellFormed (fireTimer T t w)"
proof (cases "find (\<lambda>(i, due, a). i = t) (timers w)")
  case None
  then show ?thesis using assms by (simp add: fireTimer_def)
next
  case (Some e)
  obtain i due a where e: "e = (i, due, a)" by (cases e)
  have mem: "i = t \<and> (i, due, a) \<in> set (timers w)"
    using find_timer Some e by simp
  let ?v = "w\<lparr>timers := filter (\<lambda>(j, d, c). j \<noteq> t) (timers w), now := max (now w) due\<rparr>"
  have wv: "timersWellFormed ?v"
    using assms
    by (auto simp: timersWellFormed_def timersFresh_def singleInvulnerabilityTimer_def
          list_all_iff)
  have "timersWellFormed (runAction T a ?v)"
  proof (cases a)
    case CooldownEnd
    then show ?thesis using wv
      by (simp add: runAction_def timersWellFormed_def timersFresh_def
            singleInvulnerabilityTimer_def)
  next
    case (Fuse bomb gx gy)
    have "timersWellFormed ((removeElement bomb ?v)\<lparr>activeBombs := activeBombs ?v - 1\<rparr>)"
      using wv
      by (simp add: timersWellFormed_def timersFresh_def singleInvulnerabilityTimer_def
            removeElement_def)
    then show ?thesis
      using stable_createExplosion [OF stable_wellFormed blastStable_wellFormed] Fuse
      by (simp add: runAction_def Let_def removeElement_def)
  next
    case InvulnerabilityTimeout
    have "invulnerabilityTimer w = Some t"
      using assms mem InvulnerabilityTimeout
      by (auto simp: timersWellFormed_def singleInvulnerabilityTimer_def list_all_iff)
    then have "\<forall>(j, d, c) \<in> set (timers w). c = InvulnerabilityTimeout \<longrightarrow> j = t"
      using assms
      by (auto simp: timersWellFormed_def singleInvulnerabilityTimer_def list_all_iff)
    then show ?thesis
      using wv InvulnerabilityTimeout
      by (auto simp: runAction_def Let_def emit_def timersWellFormed_def timersFresh_def
            singleInvulnerabilityTimer_def list_all_iff)
  next
    case RemovePlayerElement
    then show ?thesis using wv
      by (auto simp: runAction_def timersWellFormed_def timersFresh_def
            singleInvulnerabilityTimer_def removeElement_def split: option.splits)
  next
    case (RemoveElement h)
    then show ?thesis using wv by (simp add: runAction_def wellFormed_simps)
  next
    case (SpawnPowerup x y)
    then show ?thesis using wv by (simp add: runAction_def)
  qed
  then show ?thesis by (simp add: fireTimer_def Some e)
qed

lemma handlePowerUp_timers:
  "timers (handlePowerUp P data w) = timers w"
  "nextTimer (handlePowerUp P data w) = nextTimer w"
  "invulnerabilityTimer (handlePowerUp P data w) = invulnerabilityTimer w"
  by (cases "dataType data";
      simp add: handlePowerUp_def Let_def emitStatsUpdate_def emit_def)+

lemma handleStatUpdate_timers:
  "timers (handleStatUpdate P data w) = timers w"
  "nextTimer (handleStatUpdate P data w) = nextTimer w"
  "invulnerabilityTimer (handleStatUpdate P data w) = invulnerabilityTimer w"
  by (simp_all add: handleStatUpdate_def Let_def emitStatsUpdate_def emit_def)

lemma step_wellFormed:
  assumes "timersWellFormed w"
  shows "timersWellFormed (step T P i w)"
proof (cases i)
  case (On_powerup_applied data)
  then show ?thesis using assms
    by (simp add: step_def timersWellFormed_def timersFresh_def singleInvulnerabilityTimer_def
          handlePowerUp_timers)
next
  case (On_stat_updated data)
  then show ?thesis using assms
    by (simp add: step_def timersWellFormed_def timersFresh_def singleInvulnerabilityTimer_def
          handleStatUpdate_timers)
next
  case (On_player_hit data)
  then show ?thesis using assms by (simp add: step_def handleHit_wellFormed)
next
  case Call_placeBomb
  then show ?thesis using assms by (simp add: step_def placeBomb_wellFormed)
next
  case (Call_createExplosion x y radius)
  then show ?thesis
    using stable_createExplosion [OF stable_wellFormed blastStable_wellFormed assms]
    by (simp add: step_def)
next
  case (Timeout t)
  then show ?thesis using assms by (simp add: step_def fireTimer_wellFormed)
qed (use assms in \<open>simp_all add: step_def timersWellFormed_def timersFresh_def
       singleInvulnerabilityTimer_def\<close>)

lemma run_wellFormed:
  "timersWellFormed w \<Longrightarrow> timersWellFormed (run T P ins w)"
  unfolding run_def by (induction ins arbitrary: w) (simp_all add: step_wellFormed)

lemma sampleWorld_wellFormed: "timersWellFormed sampleWorld"
  by (simp add: timersWellFormed_def timersFresh_def singleInvulnerabilityTimer_def
        sampleWorld_def)

section \<open>Explosion rays\<close>

lemma rayLine_mono: "rayLine d x y (i + 1) \<subseteq> rayLine d x y i"
  by (force simp: rayLine_def)

lemma rayLine_first: "(x + dx d * i, y + dy d * i) \<in> rayLine d x y i"
  by (force simp: rayLine_def)

lemma stableI:
  assumes "\<And>w e. Q w \<Longrightarrow> Q (emit e w)"
    and "\<And>w m. Q w \<Longrightarrow> Q (sendToServer m w)"
    and "\<And>w a n. Q w \<Longrightarrow> Q (setTimeout a n w)"
    and "\<And>w l t. Q w \<Longrightarrow> Q (appendChild [] [''empty-space''] l t w)"
    and "\<And>w d. Q w \<Longrightarrow> Q (handleHit d w)"
  shows "stable Q"
  unfolding stable_def using assms by simp

lemma stable_framed: "stable (framed g bs)"
proof (rule stableI)
  show "framed g bs (handleHit d w)" if "framed g bs w" for w d
    using that by (simp add: framed_def querySelectorAll_def handleHit_frame)
qed (simp_all add: framed_def basic_defs querySelectorAll_def)

lemma stable_blastCells: "stable (\<lambda>w. blastCells n w = L)"
proof (rule stableI)
  show "blastCells n (handleHit d w) = L" if "blastCells n w = L" for w d
    using that by (simp add: blastCells_def handleHit_frame)
qed (simp_all add: blastCells_def basic_defs)

lemma destroyBlockAt_result:
  assumes "gameContainer w"
  shows "fst (destroyBlockAt T x y (D, w)) = ((x, y) \<notin> D \<and> hasBlock T w x y)"
    and "fst (snd (destroyBlockAt T x y (D, w)))
           = (if (x, y) \<notin> D \<and> hasBlock T w x y then insert (x, y) D else D)"
  using assms by (simp_all add: destroyBlockAt_def hasBlock_def Let_def)

lemma explodeCell_result:
  assumes "gameContainer w" "name d \<noteq> ''block''"
  shows "fst (explodeCell T d ex ey (D, w)) = ((ex, ey) \<notin> D \<and> hasBlock T w ex ey)"
    and "fst (snd (explodeCell T d ex ey (D, w)))
           = (if (ex, ey) \<notin> D \<and> hasBlock T w ex ey then insert (ex, ey) D else D)"
proof -
  let ?w1 = "appendChild [] [''explosion'', name d] (ex * T) (ey * T) w"
  have g1: "gameContainer ?w1" using assms(1) by (simp add: appendChild_def)
  have b1: "hasBlock T ?w1 ex ey = hasBlock T w ex ey"
    using assms(2) by (auto simp: hasBlock_def appendChild_def querySelectorAll_def)
  obtain r D' w2 where db: "destroyBlockAt T ex ey (D, ?w1) = (r, D', w2)"
    by (cases "destroyBlockAt T ex ey (D, ?w1)") auto
  have r: "r = ((ex, ey) \<notin> D \<and> hasBlock T w ex ey)"
    using destroyBlockAt_result(1) [OF g1, of T ex ey D] by (simp add: db b1)
  have D': "D' = (if (ex, ey) \<notin> D \<and> hasBlock T w ex ey then insert (ex, ey) D else D)"
    using destroyBlockAt_result(2) [OF g1, of T ex ey D] by (simp add: db b1)
  show "fst (explodeCell T d ex ey (D, w)) = ((ex, ey) \<notin> D \<and> hasBlock T w ex ey)"
    by (simp add: explodeCell_def Let_def db r)
  show "fst (snd (explodeCell T d ex ey (D, w)))
           = (if (ex, ey) \<notin> D \<and> hasBlock T w ex ey then insert (ex, ey) D else D)"
    by (simp add: explodeCell_def Let_def db D')
qed

lemma explodeCell_framed:
  assumes "framed g bs w" "name d \<noteq> ''block''"
  shows "framed g bs (snd (snd (explodeCell T d ex ey (D, w))))"
proof -
  have "framed g bs (appendChild [] [''explosion'', name d] (ex * T) (ey * T) w)"
    using assms by (auto simp: framed_def appendChild_def querySelectorAll_def)
  then show ?thesis
    using stable_explodeCell_rendered
      [where Q = "framed g bs" and b = "(D, w)", OF stable_framed] by simp
qed

lemma explodeCell_blastCells:
  "blastCells n (snd (snd (explodeCell T d ex ey (D, w))))
     = blastCells n w @ (if n = name d then [(ex * T, ey * T)] else [])"
proof -
  let ?L = "blastCells n w @ (if n = name d then [(ex * T, ey * T)] else [])"
  have "blastCells n (appendChild [] [''explosion'', name d] (ex * T) (ey * T) w) = ?L"
    by (auto simp: blastCells_def appendChild_def)
  then show ?thesis
    using stable_explodeCell_rendered
      [where Q = "\<lambda>w. blastCells n w = ?L" and b = "(D, w)", OF stable_blastCells] by simp
qed

lemma framed_hasBlock:
  assumes "framed g bs v" "framed g bs w"
  shows "hasBlock T v cx cy = hasBlock T w cx cy"
  using assms by (simp add: framed_def hasBlock_def)

lemma ray_framed:
  assumes "name d \<noteq> ''block''" "framed g bs (snd b)"
  shows "framed g bs (snd (explosionRay T d x y radius i b))"
proof (rule stable_explosionRay_named [OF stable_framed _ assms(2)])
  show "\<forall>v l t. framed g bs v \<longrightarrow> framed g bs (appendChild [] [''explosion'', name d] l t v)"
    using assms(1) by (auto simp: framed_def appendChild_def querySelectorAll_def)
qed

lemma ray_blastCells_other:
  assumes "n \<noteq> name d"
  shows "blastCells n (snd (explosionRay T d x y radius i b)) = blastCells n (snd b)"
proof (rule stable_explosionRay_named [OF stable_blastCells])
  show "\<forall>v l t. blastCells n v = blastCells n (snd b) \<longrightarrow>
          blastCells n (appendChild [] [''explosion'', name d] l t v) = blastCells n (snd b)"
    using assms by (auto simp: blastCells_def appendChild_def)
qed simp

lemma ray_prefix:
  "name d \<noteq> ''block'' \<Longrightarrow> gameContainer (snd b) \<Longrightarrow>
   (\<forall>j. i \<le> j \<and> j \<le> radius \<longrightarrow> (x + dx d * j, y + dy d * j) \<notin> fst b) \<Longrightarrow>
   \<exists>k. rayStops T (snd b) d x y radius i k \<and>
       blastCells (name d) (snd (explosionRay T d x y radius i b))
         = blastCells (name d) (snd b)
             @ map (\<lambda>j. ((x + dx d * j) * T, (y + dy d * j) * T)) [i..k] \<and>
       fst (explosionRay T d x y radius i b)
         \<subseteq> fst b \<union> rayLine d x y i"
proof (induction T d x y radius i b rule: explosionRay.induct)
  case (1 T d x y radius i b)
  obtain D w where b: "b = (D, w)" by (cases b)
  note nm = "1.prems"(1)
  have gc: "gameContainer w" using "1.prems"(2) b by simp
  have fresh: "\<forall>j. i \<le> j \<and> j \<le> radius \<longrightarrow> (x + dx d * j, y + dy d * j) \<notin> D"
    using "1.prems"(3) b by simp
  show ?case
  proof (cases "i \<le> radius \<and> isValidExplosionPosition (x + dx d * i) (y + dy d * i)")
    case False
    then have ray: "explosionRay T d x y radius i b = b"
      by (subst explosionRay.simps) auto
    have "rayStops T (snd b) d x y radius i (i - 1)"
      using False by (auto simp: rayStops_def)
    then show ?thesis
      unfolding ray by (intro exI [of _ "i - 1"]) auto
  next
    case True
    then have le: "i \<le> radius" and valid: "isValidExplosionPosition (x + dx d * i) (y + dy d * i)"
      by simp_all
    let ?ex = "x + dx d * i" and ?ey = "y + dy d * i"
    obtain r b' where ec: "explodeCell T d ?ex ?ey b = (r, b')"
      by (cases "explodeCell T d ?ex ?ey b") auto
    have ec': "explodeCell T d ?ex ?ey (D, w) = (r, b')" using ec b by simp
    have notin: "(?ex, ?ey) \<notin> D" using fresh le by simp
    have r: "r = hasBlock T w ?ex ?ey"
      using explodeCell_result(1) [OF gc nm, of T ?ex ?ey D] notin by (simp add: ec')
    have D': "fst b' = (if hasBlock T w ?ex ?ey then insert (?ex, ?ey) D else D)"
      using explodeCell_result(2) [OF gc nm, of T ?ex ?ey D] notin by (simp add: ec')
    have fr: "framed True (querySelectorAll ''block'' w) (snd b')"
      using explodeCell_framed [of True "querySelectorAll ''block'' w" w d T ?ex ?ey D] gc nm
      by (simp add: framed_def ec')
    have hb: "hasBlock T (snd b') cx cy = hasBlock T w cx cy" for cx cy
      using fr by (simp add: framed_def hasBlock_def)
    have bc: "blastCells (name d) (snd b') = blastCells (name d) w @ [(?ex * T, ?ey * T)]"
      using explodeCell_blastCells [of "name d" T d ?ex ?ey D w] by (simp add: ec')
    show ?thesis
    proof (cases r)
      case True
      have ray: "explosionRay T d x y radius i b = b'"
        using le valid ec True by (subst explosionRay.simps) simp
      have "rayStops T (snd b) d x y radius i i"
        using le valid True r by (auto simp: rayStops_def b)
      moreover have "fst b' \<subseteq> fst b \<union> rayLine d x y i"
        using D' rayLine_first [of x d i y] by (auto simp: b)
      ultimately show ?thesis
        unfolding ray by (intro exI [of _ i]) (simp add: bc b)
    next
      case False
      have ray: "explosionRay T d x y radius i b = explosionRay T d x y radius (i + 1) b'"
        using le valid ec False by (subst explosionRay.simps) simp
      have nb: "\<not> hasBlock T w ?ex ?ey" using False r by simp
      have D'': "fst b' = D" using D' nb by simp
      have "\<exists>k. rayStops T (snd b') d x y radius (i + 1) k \<and>
          blastCells (name d) (snd (explosionRay T d x y radius (i + 1) b'))
            = blastCells (name d) (snd b')
                @ map (\<lambda>j. ((x + dx d * j) * T, (y + dy d * j) * T)) [i + 1..k] \<and>
          fst (explosionRay T d x y radius (i + 1) b')
            \<subseteq> fst b' \<union> rayLine d x y (i + 1)"
      proof (rule "1.IH" [OF _ _ ec [symmetric] _ nm])
        show "i \<le> radius" by (rule le)
        show "\<not> \<not> isValidExplosionPosition ?ex ?ey" using valid by simp
        show "\<not> r" by (rule False)
        show "gameContainer (snd b')" using fr by (simp add: framed_def)
        show "\<forall>j. i + 1 \<le> j \<and> j \<le> radius \<longrightarrow> (x + dx d * j, y + dy d * j) \<notin> fst b'"
          using fresh D'' by simp
      qed
      then obtain k where st: "rayStops T (snd b') d x y radius (i + 1) k"
        and cells: "blastCells (name d) (snd (explosionRay T d x y radius (i + 1) b'))
            = blastCells (name d) (snd b')
                @ map (\<lambda>j. ((x + dx d * j) * T, (y + dy d * j) * T)) [i + 1..k]"
        and sub: "fst (explosionRay T d x y radius (i + 1) b')
            \<subseteq> fst b' \<union> rayLine d x y (i + 1)"
        by blast
      have ik: "i \<le> k" using st by (simp add: rayStops_def)
      have up: "[i..k] = i # [i + 1..k]" using ik by (simp add: upto_rec1)
      have st': "rayStops T (snd b) d x y radius i k"
        unfolding rayStops_def
      proof (intro conjI allI impI)
        show "i - 1 \<le> k" using ik by simp
        show "k \<le> max (i - 1) radius" using st le by (simp add: rayStops_def)
        show "isValidExplosionPosition (x + dx d * j) (y + dy d * j)" if "i \<le> j \<and> j \<le> k" for j
          using that st valid by (cases "j = i") (auto simp: rayStops_def)
        show "\<not> hasBlock T (snd b) (x + dx d * j) (y + dy d * j)" if "i \<le> j \<and> j < k" for j
          using that st nb hb by (cases "j = i") (auto simp: rayStops_def b)
        show "\<not> isValidExplosionPosition (x + dx d * (k + 1)) (y + dy d * (k + 1)) \<or>
              i \<le> k \<and> hasBlock T (snd b) (x + dx d * k) (y + dy d * k)" if "k < radius"
          using that st hb ik by (auto simp: rayStops_def b)
      qed
      have "fst (explosionRay T d x y radius (i + 1) b') \<subseteq> fst b \<union> rayLine d x y i"
        using sub D'' rayLine_mono [of d x y i] unfolding b by auto
      with st' show ?thesis
        unfolding ray by (intro exI [of _ k]) (simp add: cells bc up b)
    qed
  qed
qed

lemma rayStops_cong:
  assumes "\<And>cx cy. hasBlock T v cx cy = hasBlock T w cx cy"
  shows "rayStops T v d x y radius i k = rayStops T w d x y radius i k"
  by (simp add: rayStops_def assms)

lemma rays_blastCells_other:
  assumes "\<forall>e \<in> set es. n \<noteq> name e"
  shows "blastCells n (snd (foldl (\<lambda>b d. explosionRay T d x y radius 1 b) b es))
           = blastCells n (snd b)"
  using assms by (induction es arbitrary: b) (simp_all add: ray_blastCells_other)

lemma rays_prefix:
  assumes "d \<in> set ds"
    and "distinct (map name ds)"
    and "\<forall>e \<in> set ds. name e \<noteq> ''block''"
    and "\<forall>e \<in> set ds. \<forall>e' \<in> set ds. name e \<noteq> name e' \<longrightarrow>
           rayLine e x y 1 \<inter> rayLine e' x y 1 = {}"
  shows "gameContainer (snd b) \<Longrightarrow> \<forall>e \<in> set ds. fst b \<inter> rayLine e x y 1 = {} \<Longrightarrow>
     \<exists>k. rayStops T (snd b) d x y radius 1 k \<and>
         blastCells (name d) (snd (foldl (\<lambda>b d. explosionRay T d x y radius 1 b) b ds))
           = blastCells (name d) (snd b)
               @ map (\<lambda>j. ((x + dx d * j) * T, (y + dy d * j) * T)) [1..k]"
  using assms
proof (induction ds arbitrary: b)
  case Nil
  then show ?case by simp
next
  case (Cons e es)
  let ?b1 = "explosionRay T e x y radius 1 b"
  let ?rays = "\<lambda>b ds. foldl (\<lambda>b d. explosionRay T d x y radius 1 b) b ds"
  have ne: "name e \<noteq> ''block''" using Cons.prems(5) by simp
  have gc: "gameContainer (snd b)" by (rule Cons.prems(1))
  have fresh: "\<forall>j. 1 \<le> j \<and> j \<le> radius \<longrightarrow> (x + dx e * j, y + dy e * j) \<notin> fst b"
  proof (intro allI impI)
    fix j assume "1 \<le> j \<and> j \<le> radius"
    then have "(x + dx e * j, y + dy e * j) \<in> rayLine e x y 1"
      by (auto simp: rayLine_def)
    moreover have "fst b \<inter> rayLine e x y 1 = {}" using Cons.prems(2) by simp
    ultimately show "(x + dx e * j, y + dy e * j) \<notin> fst b" by blast
  qed
  obtain k where st: "rayStops T (snd b) e x y radius 1 k"
    and cells: "blastCells (name e) (snd ?b1)
         = blastCells (name e) (snd b)
             @ map (\<lambda>j. ((x + dx e * j) * T, (y + dy e * j) * T)) [1..k]"
    and sub: "fst ?b1 \<subseteq> fst b \<union> rayLine e x y 1"
    using ray_prefix [OF ne gc fresh, of T] by blast
  have fr: "framed True (querySelectorAll ''block'' (snd b)) (snd ?b1)"
    using ray_framed [OF ne, of True "querySelectorAll ''block'' (snd b)" b] gc
    by (simp add: framed_def)
  have gc1: "gameContainer (snd ?b1)" using fr by (simp add: framed_def)
  have hb: "hasBlock T (snd ?b1) cx cy = hasBlock T (snd b) cx cy" for cx cy
    using fr by (simp add: framed_def hasBlock_def)
  show ?case
  proof (cases "d = e")
    case True
    have "\<forall>e' \<in> set es. name e \<noteq> name e'" using Cons.prems(4) by auto
    then have "blastCells (name e) (snd (?rays ?b1 es)) = blastCells (name e) (snd ?b1)"
      by (rule rays_blastCells_other)
    with st cells True show ?thesis by auto
  next
    case False
    then have d_in: "d \<in> set es" using Cons.prems(3) by simp
    have "name e \<notin> name ` set es" using Cons.prems(4) by simp
    with d_in have nd: "name d \<noteq> name e" by (metis imageI)
    have fresh1: "\<forall>e' \<in> set es. fst ?b1 \<inter> rayLine e' x y 1 = {}"
    proof
      fix e' assume e': "e' \<in> set es"
      then have "name e \<noteq> name e'" using Cons.prems(4) by auto
      then have "rayLine e x y 1 \<inter> rayLine e' x y 1 = {}"
        using Cons.prems(6) e' by simp
      moreover have "fst b \<inter> rayLine e' x y 1 = {}" using Cons.prems(2) e' by simp
      ultimately show "fst ?b1 \<inter> rayLine e' x y 1 = {}" using sub by blast
    qed
    have "\<exists>k. rayStops T (snd ?b1) d x y radius 1 k \<and>
         blastCells (name d) (snd (?rays ?b1 es))
           = blastCells (name d) (snd ?b1)
               @ map (\<lambda>j. ((x + dx d * j) * T, (y + dy d * j) * T)) [1..k]"
      using Cons.prems(4,5,6) by (intro Cons.IH [OF gc1 fresh1 d_in]) simp_all
    then obtain k' where st': "rayStops T (snd ?b1) d x y radius 1 k'"
      and cells': "blastCells (name d) (snd (?rays ?b1 es))
           = blastCells (name d) (snd ?b1)
               @ map (\<lambda>j. ((x + dx d * j) * T, (y + dy d * j) * T)) [1..k']"
      by blast
    have "rayStops T (snd b) d x y radius 1 k'"
      using st' rayStops_cong [of T "snd ?b1" "snd b", OF hb] by simp
    moreover have "blastCells (name d) (snd ?b1) = blastCells (name d) (snd b)"
      by (rule ray_blastCells_other [OF nd])
    ultimately show ?thesis using cells' by auto
  qed
qed

lemma directions_names: "distinct (map name directions)" "\<forall>e \<in> set directions. name e \<noteq> ''block''"
  "\<forall>e \<in> set directions. name e \<noteq> ''center''"
  by (simp_all add: directions_def)

lemma directions_apart:
  "\<forall>e \<in> set directions. \<forall>e' \<in> set directions. name e \<noteq> name e' \<longrightarrow>
     rayLine e x y 1 \<inter> rayLine e' x y 1 = {}"
  by (auto simp: directions_def rayLine_def)

lemma directions_off_center: "\<forall>e \<in> set directions. {(x, y)} \<inter> rayLine e x y 1 = {}"
  by (auto simp: directions_def rayLine_def)

lemma explodeCenter_framed:
  assumes "framed g bs w"
  shows "framed g bs (snd (explodeCenter T x y w))"
proof (rule stable_explodeCenter_rendered [OF stable_framed])
  show "framed g bs (appendChild [] [''explosion'', ''center''] (x * T) (y * T) w)"
    using assms by (simp add: framed_def appendChild_def querySelectorAll_def)
qed

lemma explodeCenter_blastCells:
  assumes "n \<noteq> ''center''"
  shows "blastCells n (snd (explodeCenter T x y w)) = blastCells n w"
proof (rule stable_explodeCenter_rendered [OF stable_blastCells])
  show "blastCells n (appendChild [] [''explosion'', ''center''] (x * T) (y * T) w)
          = blastCells n w"
    using assms by (simp add: blastCells_def appendChild_def)
qed

lemma explodeCenter_destroyed:
  assumes "gameContainer w"
  shows "fst (explodeCenter T x y w) \<subseteq> {(x, y)}"
proof -
  let ?w2 = "setTimeout (RemoveElement (nextHandle w)) 500
               (appendChild [] [''explosion'', ''center''] (x * T) (y * T) w)"
  have g2: "gameContainer ?w2" using assms by (simp add: basic_defs)
  obtain r D w3 where db: "destroyBlockAt T x y ({}, ?w2) = (r, D, w3)"
    by (cases "destroyBlockAt T x y ({}, ?w2)") auto
  have "D \<subseteq> {(x, y)}"
    using destroyBlockAt_result(2) [OF g2, of T x y "{}"] by (simp add: db split: if_splits)
  then show ?thesis by (simp add: explodeCenter_def Let_def db)
qed

lemma createExplosion_prefix:
  assumes "gameContainer w" and "d \<in> set directions"
  shows "\<exists>k. rayStops T w d x y radius 1 k \<and>
           blastCells (name d) (createExplosion T x y radius w)
             = blastCells (name d) w
                 @ map (\<lambda>j. ((x + dx d * j) * T, (y + dy d * j) * T)) [1..k]"
proof -
  let ?c = "explodeCenter T x y w"
  have fr: "framed True (querySelectorAll ''block'' w) (snd ?c)"
    using explodeCenter_framed [of True "querySelectorAll ''block'' w" w] assms(1)
    by (simp add: framed_def)
  have gc: "gameContainer (snd ?c)" using fr by (simp add: framed_def)
  have hb: "hasBlock T (snd ?c) cx cy = hasBlock T w cx cy" for cx cy
    using fr by (simp add: framed_def hasBlock_def)
  have fresh: "\<forall>e \<in> set directions. fst ?c \<inter> rayLine e x y 1 = {}"
    using explodeCenter_destroyed [OF assms(1), of T x y] directions_off_center [of x y]
    by blast
  obtain k where st: "rayStops T (snd ?c) d x y radius 1 k"
    and cells: "blastCells (name d)
                  (snd (foldl (\<lambda>b d. explosionRay T d x y radius 1 b) ?c directions))
           = blastCells (name d) (snd ?c)
               @ map (\<lambda>j. ((x + dx d * j) * T, (y + dy d * j) * T)) [1..k]"
    using rays_prefix [OF assms(2) directions_names(1,2) directions_apart gc fresh] by blast
  have "rayStops T w d x y radius 1 k"
    using st rayStops_cong [of T "snd ?c" w, OF hb] by simp
  moreover have "blastCells (name d) (snd ?c) = blastCells (name d) w"
    using directions_names(3) assms(2) by (intro explodeCenter_blastCells) auto
  ultimately show ?thesis
    using cells assms(1) by (auto simp: createExplosion_def)
qed

text \<open>
  Claim C3. A detonation at cell \<open>(x, y)\<close> with the given radius, in a world that has a
  game container, adds for each of the four directions \<open>d\<close> blast elements at exactly the
  cells \<open>(x, y) + j * d\<close> for \<open>j = 1, ..., k\<close>, in this order. Every one of these cells passes
  the blast check and none before the last holds a block. If \<open>k\<close> is short of the radius,
  then either the next cell fails the blast check (out of bounds, parity wall or border
  wall; it gets no blast), or cell \<open>k\<close> holds a destructible block (it got its blast and
  the ray stopped after it). With no failing cell and no block within the radius,
  \<open>k\<close> is the radius.
\<close>

theorem blast_cells_form_prefix:
  assumes "gameContainer w" and "d \<in> set directions"
  shows "\<exists>k. 0 \<le> k \<and> k \<le> max 0 radius \<and>
           blastCells (name d) (createExplosion T x y radius w)
             = blastCells (name d) w
                 @ map (\<lambda>j. ((x + dx d * j) * T, (y + dy d * j) * T)) [1..k] \<and>
           (\<forall>j. 1 \<le> j \<and> j \<le> k \<longrightarrow> isValidExplosionPosition (x + dx d * j) (y + dy d * j)) \<and>
           (\<forall>j. 1 \<le> j \<and> j < k \<longrightarrow> \<not> hasBlock T w (x + dx d * j) (y + dy d * j)) \<and>
           (k < radius \<longrightarrow>
              \<not> isValidExplosionPosition (x + dx d * (k + 1)) (y + dy d * (k + 1)) \<or>
              1 \<le> k \<and> hasBlock T w (x + dx d * k) (y + dy d * k)) \<and>
           ((\<forall>j. 1 \<le> j \<and> j \<le> radius \<longrightarrow>
                 isValidExplosionPosition (x + dx d * j) (y + dy d * j) \<and>
                 \<not> hasBlock T w (x + dx d * j) (y + dy d * j))
              \<longrightarrow> k = max 0 radius)"
proof -
  obtain k where st: "rayStops T w d x y radius 1 k"
    and cells: "blastCells (name d) (createExplosion T x y radius w)
             = blastCells (name d) w
                 @ map (\<lambda>j. ((x + dx d * j) * T, (y + dy d * j) * T)) [1..k]"
    using createExplosion_prefix [OF assms] by blast
  let ?valid = "\<lambda>j. isValidExplosionPosition (x + dx d * j) (y + dy d * j)"
  let ?block = "\<lambda>j. hasBlock T w (x + dx d * j) (y + dy d * j)"
  have k0: "0 \<le> k" and kR: "k \<le> max 0 radius"
    and v: "\<forall>j. 1 \<le> j \<and> j \<le> k \<longrightarrow> ?valid j"
    and nb: "\<forall>j. 1 \<le> j \<and> j < k \<longrightarrow> \<not> ?block j"
    and stop: "k < radius \<longrightarrow> \<not> ?valid (k + 1) \<or> 1 \<le> k \<and> ?block k"
    using st unfolding rayStops_def by simp_all
  have full: "(\<forall>j. 1 \<le> j \<and> j \<le> radius \<longrightarrow> ?valid j \<and> \<not> ?block j) \<longrightarrow> k = max 0 radius"
  proof
    assume clear: "\<forall>j. 1 \<le> j \<and> j \<le> radius \<longrightarrow> ?valid j \<and> \<not> ?block j"
    show "k = max 0 radius"
    proof (rule ccontr)
      assume "k \<noteq> max 0 radius"
      then have lt: "k < radius" using k0 kR by linarith
      then consider "\<not> ?valid (k + 1)" | "1 \<le> k \<and> ?block k" using stop by blast
      then show False
      proof cases
        case 1
        have "1 \<le> k + 1 \<and> k + 1 \<le> radius" using lt k0 by linarith
        then have "?valid (k + 1)" using clear by blast
        with 1 show False by simp
      next
        case 2
        then have "1 \<le> k \<and> k \<le> radius" using lt by linarith
        then have "\<not> ?block k" using clear by blast
        with 2 show False by simp
      qed
    qed
  qed
  show ?thesis
    by (rule exI [of _ k]) (intro conjI k0 kR cells v nb stop full)
qed

theorem blast_cells_form_prefix_witness:
  "gameContainer sampleWorld \<and> downward \<in> set directions \<and>
   blastCells ''down'' (createExplosion 32 1 1 3 sampleWorld) = [(32, 64), (32, 96)]"
proof -
  have h1: "gameContainer sampleWorld" by (simp add: sampleWorld_def)
  have h2: "downward \<in> set directions" by (simp add: downward_def directions_def)
  have v: "isValidExplosionPosition 1 2" "isValidExplosionPosition 1 3"
    by (simp_all add: isValidExplosionPosition_def GRID_WIDTH_def GRID_HEIGHT_def)
  have b: "\<not> hasBlock 32 sampleWorld 1 2" "hasBlock 32 sampleWorld 1 3"
    by (simp_all add: hasBlock_def sampleWorld_def querySelectorAll_def atCell_def)
  have e: "blastCells ''down'' sampleWorld = []"
    by (simp add: blastCells_def sampleWorld_def)
  obtain k where k: "0 \<le> k" "k \<le> 3"
    and cells: "blastCells ''down'' (createExplosion 32 1 1 3 sampleWorld)
                  = map (\<lambda>j. (32, (1 + j) * 32)) [1..k]"
    and nb: "\<forall>j. 1 \<le> j \<and> j < k \<longrightarrow> \<not> hasBlock 32 sampleWorld 1 (1 + j)"
    and stop: "k < 3 \<longrightarrow> \<not> isValidExplosionPosition 1 (1 + (k + 1)) \<or>
                 1 \<le> k \<and> hasBlock 32 sampleWorld 1 (1 + k)"
    using blast_cells_form_prefix [OF h1 h2, of 3 32 1 1] e
    by (auto simp: downward_def)
  consider "k = 0" | "k = 1" | "k = 2" | "k = 3" using k by linarith
  then have "k = 2"
  proof cases
    case 1 with stop v show ?thesis by simp
  next
    case 2 with stop v b show ?thesis by simp
  next
    case 3 then show ?thesis .
  next
    case 4
    then have "\<not> hasBlock 32 sampleWorld 1 (1 + 2)" using nb by (intro nb [rule_format]) simp
    with b show ?thesis by simp
  qed
  then have "blastCells ''down'' (createExplosion 32 1 1 3 sampleWorld) = [(32, 64), (32, 96)]"
    using cells by (simp add: upto_rec1)
  with h1 h2 show ?thesis by simp
qed

section \<open>The range of a detonation\<close>

lemma sample_down_blast:
  assumes "gameContainer w" and "blastCells ''down'' w = []"
    and "\<not> hasBlock 32 w 1 2" and "hasBlock 32 w 1 3" and "radius = 1 \<or> radius = 2"
  shows "blastCells ''down'' (createExplosion 32 1 1 radius w)
           = (if radius = 1 then [(32, 64)] else [(32, 64), (32, 96)])"
proof -
  have d: "downward \<in> set directions" by (simp add: downward_def directions_def)
  have v: "isValidExplosionPosition 1 2" "isValidExplosionPosition 1 3"
    by (simp_all add: isValidExplosionPosition_def GRID_WIDTH_def GRID_HEIGHT_def)
  obtain k where st: "rayStops 32 w downward 1 1 radius 1 k"
    and cells: "blastCells ''down'' (createExplosion 32 1 1 radius w)
                  = map (\<lambda>j. (32, (1 + j) * 32)) [1..k]"
    using createExplosion_prefix [OF assms(1) d, of 32 1 1 radius] assms(2)
    by (auto simp: downward_def)
  have k: "0 \<le> k" "k \<le> radius"
    and stop: "k < radius \<longrightarrow> \<not> isValidExplosionPosition 1 (1 + (k + 1)) \<or>
                 1 \<le> k \<and> hasBlock 32 w 1 (1 + k)"
    using st assms(5) by (auto simp: rayStops_def downward_def)
  have "k = radius"
  proof (rule ccontr)
    assume "k \<noteq> radius"
    then consider "k = 0" | "k = 1 \<and> radius = 2" using k assms(5) by linarith
    then show False
    proof cases
      case 1 with stop v assms(5) show False by auto
    next
      case 2 with stop v assms(3) show False by simp
    qed
  qed
  then show ?thesis using cells assms(5) by (auto simp: upto_rec1)
qed

text \<open>
  Claim C1 (the code differs). The sample player, with range 1, places a bomb: the relay
  is told \<open>DROP_BOMB\<close> with range 1 and \<open>bomb:placed\<close> carries range 1. The player then
  collects a flame power-up, and the fuse callback runs: it calls \<open>createExplosion\<close> with
  radius 2, the range at expiry, and the blast reaches two cells downward, (1, 2) and
  (1, 3). With the range of the placement the same detonation would have reached (1, 2)
  only.
\<close>

theorem fuse_reads_range_at_expiry:
  "trace (run 32 samplePowerUpType [Call_placeBomb] sampleWorld)
     = [Send (DROP_BOMB 1 1 1), Emit (BombPlaced ''p1'' 1 1 1)] \<and>
   run 32 samplePowerUpType [Call_placeBomb, On_powerup_applied flamePickup, Timeout 1] sampleWorld
     = createExplosion 32 1 1 2 detonating \<and>
   blastCells ''down''
     (run 32 samplePowerUpType [Call_placeBomb, On_powerup_applied flamePickup, Timeout 1]
        sampleWorld)
     = [(32, 64), (32, 96)] \<and>
   blastCells ''down'' (createExplosion 32 1 1 1 detonating) = [(32, 64)]"
proof -
  have placed: "trace (run 32 samplePowerUpType [Call_placeBomb] sampleWorld)
     = [Send (DROP_BOMB 1 1 1), Emit (BombPlaced ''p1'' 1 1 1)]"
    by (simp add: run_def step_def placeBomb_def sampleWorld_def Let_def querySelectorAll_def
          atCell_def basic_defs bombCooldownTime_def)
  have fired: "run 32 samplePowerUpType
                 [Call_placeBomb, On_powerup_applied flamePickup, Timeout 1] sampleWorld
     = createExplosion 32 1 1 2 detonating"
    by (simp add: run_def step_def placeBomb_def sampleWorld_def Let_def querySelectorAll_def
          atCell_def basic_defs bombCooldownTime_def handlePowerUp_def flamePickup_def
          samplePowerUpType_def toLowerCase_def emitStatsUpdate_def fireTimer_def runAction_def
          detonating_def numeral_2_eq_2 [symmetric])
  have g: "gameContainer detonating" and e: "blastCells ''down'' detonating = []"
    and b: "\<not> hasBlock 32 detonating 1 2" "hasBlock 32 detonating 1 3"
    by (simp_all add: detonating_def sampleWorld_def blastCells_def hasBlock_def
          querySelectorAll_def atCell_def)
  show ?thesis
    using placed fired sample_down_blast [OF g e b, of 2] sample_down_blast [OF g e b, of 1]
    by simp
qed

section \<open>Hits on the detonating player\<close>

lemma stable_located: "stable (located i s px py ps)"
proof (rule stableI)
  show "located i s px py ps (handleHit d w)" if "located i s px py ps w" for w d
    using that by (simp add: located_def querySelectorAll_def handleHit_frame handleHit_misc)
qed (simp_all add: located_def basic_defs querySelectorAll_def)

lemma handleHit_hitsOn: "hitsOn p (handleHit data w) = hitsOn p w"
  by (simp add: hitsOn_def hit_simps)

lemma emitHit_hitsOn:
  "hitsOn p (emitHit q b w) = hitsOn p w @ (if q = p then [b] else [])"
  by (simp add: emitHit_def handleHit_hitsOn) (simp add: hitsOn_def emit_def)

lemma emitHit_id: "id' (emitHit q b w) = id' w"
  by (simp add: emitHit_def handleHit_misc emit_def)

lemma hitLoop_hitsOn:
  "id' w = i \<Longrightarrow>
   hitsOn p
     (foldl (\<lambda>v player. if atCell T x y player
                           then emitHit (replace ''player-'' [] (elemId player)) (id' v) v
                           else v) w es)
   = hitsOn p w
       @ replicate
           (length (filter (\<lambda>e. atCell T x y e \<and> replace ''player-'' [] (elemId e) = p) es)) i"
  by (induction es arbitrary: w) (simp_all add: emitHit_hitsOn emitHit_id)

lemma checkPlayerHit_hitsOn:
  "hitsOn p (checkPlayerHit T x y w)
   = hitsOn p w
       @ replicate
           (length (filter (\<lambda>e. atCell T x y e \<and> replace ''player-'' [] (elemId e) = p)
                      (querySelectorAll ''player'' w))) (id' w)"
  unfolding checkPlayerHit_def by (rule hitLoop_hitsOn) simp

lemma destroyBlocks_hitsOn:
  "hitsOn p (foldl (destroyBlock x y) w es) = hitsOn p w"
  by (induction es arbitrary: w)
     (simp_all add: destroyBlock_def Let_def basic_defs hitsOn_def)

lemma destroyBlockAt_hitsOn:
  "hitsOn p (snd (snd (destroyBlockAt T x y (D, w)))) = hitsOn p w"
  by (simp add: destroyBlockAt_def Let_def destroyBlocks_hitsOn)

lemma destroyBlockAt_located:
  assumes "located i s px py ps w"
  shows "located i s px py ps (snd (snd (destroyBlockAt T x y (D, w))))"
  using stable_destroyBlockAt [OF stable_located, of i s px py ps "(D, w)"] assms by simp

lemma own_element_at_cell:
  assumes "0 < T"
    and "filter (\<lambda>e. replace ''player-'' [] (elemId e) = i) ps = [p]"
    and "leftPx p = cx * T" and "topPx p = cy * T"
  shows "length (filter (\<lambda>e. atCell T cx cy e \<and> replace ''player-'' [] (elemId e) = i) ps) = 1"
proof -
  have at: "atCell T cx cy p" using assms(1,3,4) by (simp add: atCell_def)
  have "filter (\<lambda>e. atCell T cx cy e \<and> replace ''player-'' [] (elemId e) = i) ps
          = filter (atCell T cx cy) (filter (\<lambda>e. replace ''player-'' [] (elemId e) = i) ps)"
    by (simp add: conj_commute)
  then show ?thesis using at assms(2) by simp
qed

lemma resolve_hits:
  assumes "located i (Some i) cx cy ps v" and "0 < T"
    and "filter (\<lambda>e. replace ''player-'' [] (elemId e) = i) ps = [p]"
    and "leftPx p = cx * T" and "topPx p = cy * T"
  shows "hitsOn i (checkPlayerHit T cx cy v) = hitsOn i v @ [i]"
    and "hitsOn i (selfHitCenter cx cy (checkPlayerHit T cx cy v)) = hitsOn i v @ [i, i]"
    and "hitsOn i (selfHitRay cx cy (checkPlayerHit T cx cy v)) = hitsOn i v @ [i, i]"
proof -
  let ?u = "checkPlayerHit T cx cy v"
  have iv: "id' v = i" and pv: "querySelectorAll ''player'' v = ps"
    using assms(1) by (simp_all add: located_def)
  show c: "hitsOn i ?u = hitsOn i v @ [i]"
    using checkPlayerHit_hitsOn [of i T cx cy v] own_element_at_cell [OF assms(2,3,4,5)]
    by (simp add: iv pv)
  have "located i (Some i) cx cy ps ?u"
    by (rule stable_checkPlayerHit [OF stable_located assms(1)])
  then have u: "id' ?u = i" "isLocalPlayer ?u" "posX ?u = cx" "posY ?u = cy"
    by (simp_all add: located_def isLocalPlayer_def)
  show "hitsOn i (selfHitCenter cx cy ?u) = hitsOn i v @ [i, i]"
    using u c by (simp add: selfHitCenter_def emitHit_hitsOn)
  have "hitsOn i (sendToServer m (emitHit i i ?u)) = hitsOn i ?u @ [i]" for m
    using emitHit_hitsOn [of i i i ?u] by (simp add: hitsOn_def sendToServer_def)
  then show "hitsOn i (selfHitRay cx cy ?u) = hitsOn i v @ [i, i]"
    using u c by (simp add: selfHitRay_def Let_def)
qed

text \<open>
  Claim C10. Let the player be the local player, and let the one player element that
  resolves to the player's id stand where \<open>updateVisualPosition\<close> puts it, on the
  player's cell. Resolving that cell emits \<open>player:hit\<close> for the player exactly twice,
  both times with the player as attacker: once in the scan of \<open>checkPlayerHit\<close> and once
  more in the check of the local player that follows it. This holds for the check at the
  centre and for the check on a ray, and so for the whole centre step and for the whole
  step of a ray cell in any of the four directions.
\<close>

theorem own_blast_hits_local_player_twice:
  assumes "isLocalPlayer w" and "0 < T" and "d \<in> set directions"
    and "filter (\<lambda>e. replace ''player-'' [] (elemId e) = id' w) (querySelectorAll ''player'' w)
           = [p]"
    and "leftPx p = posX w * T" and "topPx p = posY w * T"
  shows "hitsOn (id' w) (checkPlayerHit T (posX w) (posY w) w) = hitsOn (id' w) w @ [id' w] \<and>
         hitsOn (id' w) (selfHitCenter (posX w) (posY w) (checkPlayerHit T (posX w) (posY w) w))
           = hitsOn (id' w) w @ [id' w, id' w] \<and>
         hitsOn (id' w) (selfHitRay (posX w) (posY w) (checkPlayerHit T (posX w) (posY w) w))
           = hitsOn (id' w) w @ [id' w, id' w] \<and>
         hitsOn (id' w) (snd (explodeCenter T (posX w) (posY w) w))
           = hitsOn (id' w) w @ [id' w, id' w] \<and>
         hitsOn (id' w) (snd (snd (explodeCell T d (posX w) (posY w) (D, w))))
           = hitsOn (id' w) w @ [id' w, id' w]"
proof -
  let ?i = "id' w" and ?cx = "posX w" and ?cy = "posY w"
  let ?ps = "querySelectorAll ''player'' w"
  have loc: "located ?i (Some ?i) ?cx ?cy ?ps w"
    using assms(1) by (simp add: located_def isLocalPlayer_def)
  note hits = resolve_hits [OF _ assms(2) assms(4,5,6)]
  let ?c2 = "setTimeout (RemoveElement (nextHandle w)) 500
               (appendChild [] [''explosion'', ''center''] (?cx * T) (?cy * T) w)"
  obtain r D' w3 where dc: "destroyBlockAt T ?cx ?cy ({}, ?c2) = (r, D', w3)"
    by (cases "destroyBlockAt T ?cx ?cy ({}, ?c2)") auto
  have loc2: "located ?i (Some ?i) ?cx ?cy ?ps ?c2"
    using loc by (simp add: located_def basic_defs querySelectorAll_def)
  have cnt2: "hitsOn ?i ?c2 = hitsOn ?i w"
    by (simp add: hitsOn_def basic_defs)
  have loc3: "located ?i (Some ?i) ?cx ?cy ?ps w3"
    using destroyBlockAt_located [OF loc2, of T ?cx ?cy "{}"] by (simp add: dc)
  have cnt3: "hitsOn ?i w3 = hitsOn ?i w"
    using destroyBlockAt_hitsOn [of ?i T ?cx ?cy "{}" ?c2] cnt2 by (simp add: dc)
  have centre: "hitsOn ?i (snd (explodeCenter T ?cx ?cy w)) = hitsOn ?i w @ [?i, ?i]"
    using hits(2) [OF loc3] cnt3 by (simp add: explodeCenter_def Let_def dc)
  have nd: "name d \<noteq> ''player''" using assms(3) by (auto simp: directions_def)
  let ?r1 = "appendChild [] [''explosion'', name d] (?cx * T) (?cy * T) w"
  obtain r' D'' v2 where dr: "destroyBlockAt T ?cx ?cy (D, ?r1) = (r', D'', v2)"
    by (cases "destroyBlockAt T ?cx ?cy (D, ?r1)") auto
  have locr: "located ?i (Some ?i) ?cx ?cy ?ps ?r1"
    using loc nd by (auto simp: located_def basic_defs querySelectorAll_def)
  have cntr: "hitsOn ?i ?r1 = hitsOn ?i w"
    by (simp add: hitsOn_def basic_defs)
  have locv: "located ?i (Some ?i) ?cx ?cy ?ps v2"
    using destroyBlockAt_located [OF locr, of T ?cx ?cy D] by (simp add: dr)
  have cntv: "hitsOn ?i v2 = hitsOn ?i w"
    using destroyBlockAt_hitsOn [of ?i T ?cx ?cy D ?r1] cntr by (simp add: dr)
  have "hitsOn ?i (setTimeout a n (selfHitRay ?cx ?cy (checkPlayerHit T ?cx ?cy v2)))
          = hitsOn ?i w @ [?i, ?i]" for a n
    using hits(3) [OF locv] cntv by (simp add: hitsOn_def setTimeout_def)
  then have ray: "hitsOn ?i (snd (snd (explodeCell T d ?cx ?cy (D, w))))
                    = hitsOn ?i w @ [?i, ?i]"
    by (simp add: explodeCell_def Let_def dr)
  show ?thesis
    using hits(1) [OF loc] hits(2) [OF loc] hits(3) [OF loc] centre ray by simp
qed

theorem own_blast_hits_local_player_twice_witness:
  "isLocalPlayer sampleWorld \<and> downward \<in> set directions \<and>
   hitsOn ''p1'' (checkPlayerHit 32 1 1 sampleWorld) = [''p1''] \<and>
   hitsOn ''p1'' (selfHitCenter 1 1 (checkPlayerHit 32 1 1 sampleWorld)) = [''p1'', ''p1''] \<and>
   hitsOn ''p1'' (selfHitRay 1 1 (checkPlayerHit 32 1 1 sampleWorld)) = [''p1'', ''p1''] \<and>
   hitsOn ''p1'' (snd (explodeCenter 32 1 1 sampleWorld)) = [''p1'', ''p1''] \<and>
   hitsOn ''p1'' (snd (snd (explodeCell 32 downward 1 1 ({}, sampleWorld)))) = [''p1'', ''p1'']"
proof -
  let ?p = "\<lparr>handle = 0, elemId = ''player-p1'', className = [''player''],
              leftPx = 32, topPx = 32\<rparr>"
  have h1: "isLocalPlayer sampleWorld" by (simp add: isLocalPlayer_def sampleWorld_def)
  have h2: "(0::int) < 32" by simp
  have h3: "downward \<in> set directions" by (simp add: downward_def directions_def)
  have h4: "filter (\<lambda>e. replace ''player-'' [] (elemId e) = id' sampleWorld)
              (querySelectorAll ''player'' sampleWorld) = [?p]"
    by (simp add: sampleWorld_def querySelectorAll_def)
  have h5: "leftPx ?p = posX sampleWorld * 32" "topPx ?p = posY sampleWorld * 32"
    by (simp_all add: sampleWorld_def)
  have i: "id' sampleWorld = ''p1''" "posX sampleWorld = 1" "posY sampleWorld = 1"
    "hitsOn ''p1'' sampleWorld = []"
    by (simp_all add: sampleWorld_def hitsOn_def)
  show ?thesis
    using h1 h3 own_blast_hits_local_player_twice [OF h1 h2 h3 h4 h5, of "{}"]
    by (simp add: i)
qed

end
